theory Spec2Isabelle
  imports Main "HOL-Library.Word"
begin

unbundle bit_operations_syntax

section \<open>Machine types\<close>

type_synonym uint8_t = "8 word"
type_synonym uint16_t = "16 word"
type_synonym uint32_t = "32 word"

section \<open>usb\_reg\_map.h: endpoint register bits\<close>

text \<open>The macro \<open>BIT\<close> comes from sysdep.h, which is not part of the sources at hand; it is
  the usual single-bit mask \<open>1 << n\<close>.\<close>

definition BIT :: "nat \<Rightarrow> uint32_t" where
  "BIT n = push_bit n 1"

definition USB_EP_CTR_RX_BIT :: nat where "USB_EP_CTR_RX_BIT = 15"
definition USB_EP_DTOG_RX_BIT :: nat where "USB_EP_DTOG_RX_BIT = 14"
definition USB_EP_SETUP_BIT :: nat where "USB_EP_SETUP_BIT = 11"
definition USB_EP_EP_KIND_BIT :: nat where "USB_EP_EP_KIND_BIT = 8"
definition USB_EP_CTR_TX_BIT :: nat where "USB_EP_CTR_TX_BIT = 7"
definition USB_EP_DTOG_TX_BIT :: nat where "USB_EP_DTOG_TX_BIT = 6"

definition USB_EP_CTR_RX :: uint32_t where "USB_EP_CTR_RX = BIT USB_EP_CTR_RX_BIT"
definition USB_EP_DTOG_RX :: uint32_t where "USB_EP_DTOG_RX = BIT USB_EP_DTOG_RX_BIT"
definition USB_EP_STAT_RX :: uint32_t where "USB_EP_STAT_RX = push_bit 12 0x3"
definition USB_EP_STAT_RX_DISABLED :: uint32_t where "USB_EP_STAT_RX_DISABLED = push_bit 12 0x0"
definition USB_EP_STAT_RX_STALL :: uint32_t where "USB_EP_STAT_RX_STALL = push_bit 12 0x1"
definition USB_EP_STAT_RX_NAK :: uint32_t where "USB_EP_STAT_RX_NAK = push_bit 12 0x2"
definition USB_EP_STAT_RX_VALID :: uint32_t where "USB_EP_STAT_RX_VALID = push_bit 12 0x3"
definition USB_EP_SETUP :: uint32_t where "USB_EP_SETUP = BIT USB_EP_SETUP_BIT"
definition USB_EP_EP_TYPE :: uint32_t where "USB_EP_EP_TYPE = push_bit 9 0x3"
definition USB_EP_EP_TYPE_BULK :: uint32_t where "USB_EP_EP_TYPE_BULK = push_bit 9 0x0"
definition USB_EP_EP_TYPE_CONTROL :: uint32_t where "USB_EP_EP_TYPE_CONTROL = push_bit 9 0x1"
definition USB_EP_EP_TYPE_ISO :: uint32_t where "USB_EP_EP_TYPE_ISO = push_bit 9 0x2"
definition USB_EP_EP_TYPE_INTERRUPT :: uint32_t where "USB_EP_EP_TYPE_INTERRUPT = push_bit 9 0x3"
definition USB_EP_EP_KIND :: uint32_t where "USB_EP_EP_KIND = BIT USB_EP_EP_KIND_BIT"
definition USB_EP_CTR_TX :: uint32_t where "USB_EP_CTR_TX = BIT USB_EP_CTR_TX_BIT"
definition USB_EP_DTOG_TX :: uint32_t where "USB_EP_DTOG_TX = BIT USB_EP_DTOG_TX_BIT"
definition USB_EP_STAT_TX :: uint32_t where "USB_EP_STAT_TX = push_bit 4 0x3"
definition USB_EP_STAT_TX_DISABLED :: uint32_t where "USB_EP_STAT_TX_DISABLED = push_bit 4 0x0"
definition USB_EP_STAT_TX_STALL :: uint32_t where "USB_EP_STAT_TX_STALL = push_bit 4 0x1"
definition USB_EP_STAT_TX_NAK :: uint32_t where "USB_EP_STAT_TX_NAK = push_bit 4 0x2"
definition USB_EP_STAT_TX_VALID :: uint32_t where "USB_EP_STAT_TX_VALID = push_bit 4 0x3"
definition USB_EP_EA :: uint32_t where "USB_EP_EA = 0xF"

definition EP_CTR_NOP :: uint32_t where
  "EP_CTR_NOP = USB_EP_CTR_RX OR USB_EP_CTR_TX"

definition EP_NONTOGGLE :: uint32_t where
  "EP_NONTOGGLE = USB_EP_CTR_RX OR USB_EP_SETUP OR USB_EP_EP_TYPE OR USB_EP_EP_KIND
                  OR USB_EP_CTR_TX OR USB_EP_EA"

section \<open>The peripheral: registers and packet memory\<close>

definition USB_NR_EP_REGS :: nat where "USB_NR_EP_REGS = 8"

text \<open>
  \<open>USB_BASE->EP[ep]\<close>, \<open>USB_BASE->BTABLE\<close> and the packet memory area behind
  \<open>USB_PMA_BASE\<close>. The endpoint registers are indexed by the \<open>uint8_t\<close> that the
  routines take; the array has \<open>USB_NR_EP_REGS\<close> registers and the driver names endpoints
  0 to 3 only. Packet memory is keyed by the CPU address that the code dereferences (a
  \<open>uint32_t *\<close>); the addresses that the code forms from even offsets are word-aligned,
  and accesses that overlap without being equal are outside the model.

  \<open>rx_count_cfg\<close> is the receive-buffer size programmed for an endpoint by
  \<open>usb_set_ep_rx_count\<close>, see below.
\<close>

record usb_hw =
  EP :: "uint8_t \<Rightarrow> uint32_t"
  BTABLE :: uint32_t
  pma :: "uint32_t \<Rightarrow> uint32_t"
  rx_count_cfg :: "uint8_t \<Rightarrow> uint16_t"

text \<open>
  Modelled from the spec: what a store to an endpoint register does is a property of the
  peripheral, not of the C sources. Section 4.3 of the specification gives it: the two status
  fields and the two data-toggle flags are write-1-to-toggle, the two transfer-complete flags
  keep their value when 1 is written and are cleared when 0 is written, and every other
  field takes the value written.
\<close>

definition EP_TOGGLE_BITS :: uint32_t where
  "EP_TOGGLE_BITS = USB_EP_STAT_RX OR USB_EP_STAT_TX OR USB_EP_DTOG_RX OR USB_EP_DTOG_TX"

definition epr_hw_write :: "uint32_t \<Rightarrow> uint32_t \<Rightarrow> uint32_t" where
  "epr_hw_write old w =
     ((old XOR w) AND EP_TOGGLE_BITS)
     OR (old AND w AND EP_CTR_NOP)
     OR (w AND NOT (EP_TOGGLE_BITS OR EP_CTR_NOP))"

definition ep_store :: "uint8_t \<Rightarrow> uint32_t \<Rightarrow> usb_hw \<Rightarrow> usb_hw" where
  "ep_store ep w h = h\<lparr>EP := (EP h)(ep := epr_hw_write (EP h ep) w)\<rparr>"

section \<open>usb\_reg\_map.h: register convenience routines\<close>

definition usb_clear_ctr_rx :: "uint8_t \<Rightarrow> usb_hw \<Rightarrow> usb_hw" where
  "usb_clear_ctr_rx ep h =
     (let epr = EP h ep in ep_store ep (epr AND NOT USB_EP_CTR_RX AND EP_NONTOGGLE) h)"

definition usb_clear_ctr_tx :: "uint8_t \<Rightarrow> usb_hw \<Rightarrow> usb_hw" where
  "usb_clear_ctr_tx ep h =
     (let epr = EP h ep in ep_store ep (epr AND NOT USB_EP_CTR_TX AND EP_NONTOGGLE) h)"

definition usb_set_ep_rx_stat :: "uint8_t \<Rightarrow> uint32_t \<Rightarrow> usb_hw \<Rightarrow> usb_hw" where
  "usb_set_ep_rx_stat ep status h =
     (let epr = EP h ep;
          epr = epr AND NOT (USB_EP_STAT_TX OR USB_EP_DTOG_RX OR USB_EP_DTOG_TX);
          epr = epr OR EP_CTR_NOP;
          epr = epr XOR status
      in ep_store ep epr h)"

definition usb_set_ep_tx_stat :: "uint8_t \<Rightarrow> uint32_t \<Rightarrow> usb_hw \<Rightarrow> usb_hw" where
  "usb_set_ep_tx_stat ep status h =
     (let epr = EP h ep;
          epr = epr AND NOT (USB_EP_STAT_RX OR USB_EP_DTOG_RX OR USB_EP_DTOG_TX);
          epr = epr OR EP_CTR_NOP;
          epr = epr XOR status
      in ep_store ep epr h)"

definition usb_set_ep_type :: "uint8_t \<Rightarrow> uint32_t \<Rightarrow> usb_hw \<Rightarrow> usb_hw" where
  "usb_set_ep_type ep type h =
     (let epr = EP h ep;
          epr = epr AND NOT USB_EP_EP_TYPE AND EP_NONTOGGLE;
          epr = epr OR type
      in ep_store ep epr h)"

definition usb_set_ep_kind :: "uint8_t \<Rightarrow> uint32_t \<Rightarrow> usb_hw \<Rightarrow> usb_hw" where
  "usb_set_ep_kind ep kind h =
     (let epr = EP h ep;
          epr = epr AND NOT USB_EP_EP_KIND AND EP_NONTOGGLE;
          epr = epr OR kind
      in ep_store ep epr h)"

definition usb_clear_status_out :: "uint8_t \<Rightarrow> usb_hw \<Rightarrow> usb_hw" where
  "usb_clear_status_out ep h = usb_set_ep_kind ep 0 h"

section \<open>usb\_reg\_map.h: packet memory and buffer descriptor table\<close>

definition USB_PMA_BASE :: uint32_t where
  "USB_PMA_BASE = 0x40006000"

definition usb_pma_ptr :: "uint32_t \<Rightarrow> uint32_t" where
  "usb_pma_ptr offset = USB_PMA_BASE + 2 * offset"

definition usb_btable_ptr :: "uint32_t \<Rightarrow> usb_hw \<Rightarrow> uint32_t" where
  "usb_btable_ptr offset h = usb_pma_ptr (BTABLE h + offset)"

text \<open>TX address\<close>

definition usb_ep_tx_addr_ptr :: "uint8_t \<Rightarrow> usb_hw \<Rightarrow> uint32_t" where
  "usb_ep_tx_addr_ptr ep h = usb_btable_ptr (ucast ep * 8) h"


definition usb_set_ep_tx_addr :: "uint8_t \<Rightarrow> uint16_t \<Rightarrow> usb_hw \<Rightarrow> usb_hw" where
  "usb_set_ep_tx_addr ep addr h =
     (let tx_addr = usb_ep_tx_addr_ptr ep h
      in h\<lparr>pma := (pma h)(tx_addr := ucast addr AND NOT 0x1)\<rparr>)"

text \<open>RX address\<close>

definition usb_ep_rx_addr_ptr :: "uint8_t \<Rightarrow> usb_hw \<Rightarrow> uint32_t" where
  "usb_ep_rx_addr_ptr ep h = usb_btable_ptr (ucast ep * 8 + 4) h"


definition usb_set_ep_rx_addr :: "uint8_t \<Rightarrow> uint16_t \<Rightarrow> usb_hw \<Rightarrow> usb_hw" where
  "usb_set_ep_rx_addr ep addr h =
     (let rx_addr = usb_ep_rx_addr_ptr ep h
      in h\<lparr>pma := (pma h)(rx_addr := ucast addr AND NOT 0x1)\<rparr>)"

text \<open>TX count\<close>

definition usb_ep_tx_count_ptr :: "uint8_t \<Rightarrow> usb_hw \<Rightarrow> uint32_t" where
  "usb_ep_tx_count_ptr ep h = usb_btable_ptr (ucast ep * 8 + 2) h"

definition usb_get_ep_tx_count :: "uint8_t \<Rightarrow> usb_hw \<Rightarrow> uint16_t" where
  "usb_get_ep_tx_count ep h = ucast (pma h (usb_ep_tx_count_ptr ep h))"

definition usb_set_ep_tx_count :: "uint8_t \<Rightarrow> uint16_t \<Rightarrow> usb_hw \<Rightarrow> usb_hw" where
  "usb_set_ep_tx_count ep count h =
     (let txc = usb_ep_tx_count_ptr ep h
      in h\<lparr>pma := (pma h)(txc := ucast count)\<rparr>)"

text \<open>RX count\<close>

definition usb_ep_rx_count_ptr :: "uint8_t \<Rightarrow> usb_hw \<Rightarrow> uint32_t" where
  "usb_ep_rx_count_ptr ep h = usb_btable_ptr (ucast ep * 8 + 6) h"

definition usb_get_ep_rx_count :: "uint8_t \<Rightarrow> usb_hw \<Rightarrow> uint16_t" where
  "usb_get_ep_rx_count ep h = ucast (pma h (usb_ep_rx_count_ptr ep h)) AND 0x3FF"

text \<open>
  Modelled from the spec: \<open>usb_set_ep_rx_count\<close> is only declared in usb\_reg\_map.h; its
  body is not among the sources. The specification says of it that the driver "sets its
  expected RX count back to full packet size", so the model records the count that was
  programmed for the endpoint.
\<close>

definition usb_set_ep_rx_count :: "uint8_t \<Rightarrow> uint16_t \<Rightarrow> usb_hw \<Rightarrow> usb_hw" where
  "usb_set_ep_rx_count ep count h = h\<lparr>rx_count_cfg := (rx_count_cfg h)(ep := count)\<rparr>"

text \<open>
  Modelled from the spec: \<open>usb_copy_to_pma\<close> and \<open>usb_copy_from_pma\<close> are only declared
  in usb\_reg\_map.h. Section 4.1 of the specification: they move \<open>len\<close> bytes between a
  linear buffer and packet memory, which is accessed in 16-bit units at addresses
  \<open>base + 2 * offset\<close>, packing two bytes into each unit and touching nothing past
  \<open>len\<close>. Byte \<open>i\<close> of a packet buffer at \<open>pma_offset\<close> is the low (even \<open>i\<close>) or high
  (odd \<open>i\<close>) byte of the unit at packet-memory offset \<open>pma_offset + 2 * (i div 2)\<close>.
\<close>

definition pma_byte_ptr :: "uint16_t \<Rightarrow> nat \<Rightarrow> uint32_t" where
  "pma_byte_ptr pma_offset i = usb_pma_ptr (ucast pma_offset + 2 * of_nat (i div 2))"

definition lane_get :: "bool \<Rightarrow> uint32_t \<Rightarrow> uint8_t" where
  "lane_get high w = (if high then ucast (drop_bit 8 w) else ucast w)"

definition lane_set :: "bool \<Rightarrow> uint8_t \<Rightarrow> uint32_t \<Rightarrow> uint32_t" where
  "lane_set high b w =
     (if high then (w AND NOT 0xFF00) OR push_bit 8 (ucast b) else (w AND NOT 0xFF) OR ucast b)"

definition pma_get_byte :: "usb_hw \<Rightarrow> uint16_t \<Rightarrow> nat \<Rightarrow> uint8_t" where
  "pma_get_byte h pma_offset i = lane_get (odd i) (pma h (pma_byte_ptr pma_offset i))"

definition pma_set_byte :: "uint16_t \<Rightarrow> nat \<Rightarrow> uint8_t \<Rightarrow> usb_hw \<Rightarrow> usb_hw" where
  "pma_set_byte pma_offset i b h =
     (let p = pma_byte_ptr pma_offset i
      in h\<lparr>pma := (pma h)(p := lane_set (odd i) b (pma h p))\<rparr>)"

definition usb_copy_to_pma ::
  "(nat \<Rightarrow> uint8_t) \<Rightarrow> uint16_t \<Rightarrow> uint16_t \<Rightarrow> usb_hw \<Rightarrow> usb_hw" where
  "usb_copy_to_pma buf len pma_offset h =
     fold (\<lambda>i. pma_set_byte pma_offset i (buf i)) [0..<unat len] h"

definition usb_copy_from_pma :: "uint16_t \<Rightarrow> uint16_t \<Rightarrow> usb_hw \<Rightarrow> uint8_t list" where
  "usb_copy_from_pma len pma_offset h = map (pma_get_byte h pma_offset) [0..<unat len]"

section \<open>usb\_cdcacm.c: configuration\<close>

definition USB_EP0 :: uint8_t where "USB_EP0 = 0"

definition VCOM_CTRL_EPNUM :: uint8_t where "VCOM_CTRL_EPNUM = 0x00"
definition VCOM_CTRL_RX_ADDR :: uint16_t where "VCOM_CTRL_RX_ADDR = 0x40"
definition VCOM_CTRL_TX_ADDR :: uint16_t where "VCOM_CTRL_TX_ADDR = 0x80"
definition VCOM_CTRL_EPSIZE :: uint32_t where "VCOM_CTRL_EPSIZE = 0x40"

definition VCOM_TX_ENDP :: uint8_t where "VCOM_TX_ENDP = 1"
definition VCOM_TX_EPNUM :: uint8_t where "VCOM_TX_EPNUM = 0x01"
definition VCOM_TX_ADDR :: uint16_t where "VCOM_TX_ADDR = 0xC0"
definition VCOM_TX_EPSIZE :: uint32_t where "VCOM_TX_EPSIZE = 0x40"

definition VCOM_NOTIFICATION_ENDP :: uint8_t where "VCOM_NOTIFICATION_ENDP = 2"
definition VCOM_NOTIFICATION_EPNUM :: uint8_t where "VCOM_NOTIFICATION_EPNUM = 0x02"
definition VCOM_NOTIFICATION_ADDR :: uint16_t where "VCOM_NOTIFICATION_ADDR = 0x100"
definition VCOM_NOTIFICATION_EPSIZE :: uint32_t where "VCOM_NOTIFICATION_EPSIZE = 0x40"

definition VCOM_RX_ENDP :: uint8_t where "VCOM_RX_ENDP = 3"
definition VCOM_RX_EPNUM :: uint8_t where "VCOM_RX_EPNUM = 0x03"
definition VCOM_RX_ADDR :: uint16_t where "VCOM_RX_ADDR = 0x110"
definition VCOM_RX_EPSIZE :: uint32_t where "VCOM_RX_EPSIZE = 0x40"
definition VCOM_RX_BUFLEN :: uint32_t where "VCOM_RX_BUFLEN = VCOM_RX_EPSIZE * 3"

definition SET_LINE_CODING :: uint8_t where "SET_LINE_CODING = 0x20"
definition GET_LINE_CODING :: uint8_t where "GET_LINE_CODING = 0x21"
definition SET_COMM_FEATURE :: uint8_t where "SET_COMM_FEATURE = 0x02"
definition SET_CONTROL_LINE_STATE :: uint8_t where "SET_CONTROL_LINE_STATE = 0x22"
definition CONTROL_LINE_DTR :: uint8_t where "CONTROL_LINE_DTR = 0x01"
definition CONTROL_LINE_RTS :: uint8_t where "CONTROL_LINE_RTS = 0x02"

definition MAX_PACKET_SIZE :: uint16_t where "MAX_PACKET_SIZE = 0x40"
definition BTABLE_ADDRESS :: uint32_t where "BTABLE_ADDRESS = 0x00"

section \<open>usb\_cdcacm.c: state\<close>

datatype RESET_STATE = DTR_UNSET | DTR_HIGH | DTR_NEGEDGE | DTR_LOW

text \<open>
  The USB device-stack library that this file is linked against is not among the sources.
  Of its enumerations, the model has the values that usb\_cdcacm.c names.
\<close>

datatype RESULT = USB_SUCCESS | USB_UNSUPPORT

datatype USB_DEVICE_STATE = USB_UNCONNECTED | USB_ATTACHED | USB_ADDRESSED | USB_CONFIGURED

text \<open>
  What usb\_cdcacm.c reads and writes of the library's data: the fields of
  \<open>pInformation\<close> that it names (\<open>Type_Recipient\<close> is the library's macro over the request
  type of the setup packet being served, \<open>USBwValues_bb0\<close> is \<open>USBwValues.bw.bb0\<close>) and
  \<open>USBLIB->state\<close>.
\<close>

record usb_stack =
  Current_Configuration :: uint8_t
  Current_Feature :: uint8_t
  Type_Recipient :: uint8_t
  USBwValues_bb0 :: uint8_t
  USBLIB_state :: USB_DEVICE_STATE

text \<open>
  The library's constants and the one library routine that \<open>usbReset\<close> calls are parameters
  of the model. \<open>SetDeviceAddress\<close> programs the peripheral; it is given the peripheral and
  nothing of this file's variables, which the library does not know.
\<close>

record usb_lib =
  USB_CONFIG_ATTR_BUSPOWERED :: uint8_t
  USB_CONFIG_ATTR_SELF_POWERED :: uint8_t
  CLASS_REQUEST :: uint8_t
  INTERFACE_RECIPIENT :: uint8_t
  SetDeviceAddress :: "uint8_t \<Rightarrow> usb_hw \<Rightarrow> usb_hw"

text \<open>
  The file's variables. \<open>rx_offset\<close> is the \<open>static\<close> local of \<open>usb_cdcacm_rx\<close>.
  \<open>vcomBufferRx\<close> is an array of \<open>VCOM_RX_BUFLEN\<close> bytes: the model indexes it by \<open>nat\<close>
  and every access checks the index against \<open>VCOM_RX_BUFLEN\<close>.
\<close>

record vcom_state =
  hw :: usb_hw
  stack :: usb_stack
  vcomBufferRx :: "nat \<Rightarrow> uint8_t"
  countTx :: uint32_t
  recvBufIn :: uint32_t
  recvBufOut :: uint32_t
  maxNewBytes :: uint32_t
  newBytes :: uint32_t
  rx_offset :: uint32_t
  reset_state :: RESET_STATE
  line_dtr_rts :: uint8_t

text \<open>The values of the static initialisers, over any peripheral and library state.\<close>

definition boot_state :: "usb_hw \<Rightarrow> usb_stack \<Rightarrow> vcom_state" where
  "boot_state h k =
     \<lparr>hw = h, stack = k, vcomBufferRx = (\<lambda>_. 0), countTx = 0, recvBufIn = 0, recvBufOut = 0,
      maxNewBytes = VCOM_RX_BUFLEN, newBytes = 0, rx_offset = 0, reset_state = DTR_UNSET,
      line_dtr_rts = 0\<rparr>"

datatype fault = OutOfBounds

section \<open>usb\_cdcacm.c: CDC ACM interface\<close>

definition usb_cdcacm_tx ::
  "(nat \<Rightarrow> uint8_t) \<Rightarrow> uint32_t \<Rightarrow> vcom_state \<Rightarrow> uint32_t \<times> vcom_state" where
  "usb_cdcacm_tx buf len s =
     (if countTx s \<noteq> 0 then (0, s)
      else
        let len = (if len > VCOM_TX_EPSIZE div 2 then VCOM_TX_EPSIZE div 2 else len)
        in if len \<noteq> 0 then
             let s = s\<lparr>hw := usb_copy_to_pma buf (ucast len) VCOM_TX_ADDR (hw s)\<rparr>;
                 s = s\<lparr>hw := usb_set_ep_tx_count VCOM_TX_ENDP (ucast len) (hw s)\<rparr>;
                 s = s\<lparr>countTx := countTx s + len\<rparr>;
                 s = s\<lparr>hw := usb_set_ep_tx_stat VCOM_TX_ENDP USB_EP_STAT_TX_VALID (hw s)\<rparr>
             in (len, s)
           else (len, s))"

definition usb_cdcacm_data_available :: "vcom_state \<Rightarrow> uint32_t" where
  "usb_cdcacm_data_available s = newBytes s"

definition usb_cdcacm_get_pending :: "vcom_state \<Rightarrow> uint16_t" where
  "usb_cdcacm_get_pending s = ucast (countTx s)"

text \<open>
  \<open>usb_cdcacm_rx\<close>: the bytes stored through \<open>buf\<close> are returned as a list, with the
  count. The loop reads \<open>vcomBufferRx[i + rx_offset]\<close> for \<open>i < len\<close>, the index computed
  in 32 bits; a read at or beyond \<open>VCOM_RX_BUFLEN\<close> is the fault.
\<close>

definition rx_index :: "vcom_state \<Rightarrow> nat \<Rightarrow> nat" where
  "rx_index s i = unat (of_nat i + rx_offset s)"

definition usb_cdcacm_rx ::
  "uint32_t \<Rightarrow> vcom_state \<Rightarrow> fault + (uint8_t list \<times> uint32_t \<times> vcom_state)" where
  "usb_cdcacm_rx len s =
     (let len = (if len > newBytes s then newBytes s else len)
      in if \<not> list_all (\<lambda>i. rx_index s i < unat VCOM_RX_BUFLEN) [0..<unat len]
         then Inl OutOfBounds
         else
           let buf = map (\<lambda>i. vcomBufferRx s (rx_index s i)) [0..<unat len];
               s = s\<lparr>newBytes := newBytes s - len\<rparr>;
               s = s\<lparr>rx_offset := rx_offset s + len\<rparr>;
               s = (if newBytes s = 0 then
                      let s = s\<lparr>hw := usb_set_ep_rx_count VCOM_RX_ENDP (ucast VCOM_RX_EPSIZE)
                                         (hw s)\<rparr>;
                          s = s\<lparr>hw := usb_set_ep_rx_stat VCOM_RX_ENDP USB_EP_STAT_RX_VALID
                                         (hw s)\<rparr>
                      in s\<lparr>rx_offset := 0\<rparr>
                    else s)
           in Inr (buf, len, s))"

definition usb_cdcacm_get_dtr :: "vcom_state \<Rightarrow> uint8_t" where
  "usb_cdcacm_get_dtr s = (if line_dtr_rts s AND CONTROL_LINE_DTR \<noteq> 0 then 1 else 0)"

definition usb_cdcacm_get_rts :: "vcom_state \<Rightarrow> uint8_t" where
  "usb_cdcacm_get_rts s = (if line_dtr_rts s AND CONTROL_LINE_RTS \<noteq> 0 then 1 else 0)"

section \<open>usb\_cdcacm.c: callbacks\<close>

definition vcomDataTxCb :: "vcom_state \<Rightarrow> vcom_state" where
  "vcomDataTxCb s = s\<lparr>countTx := 0\<rparr>"

text \<open>
  \<open>vcomDataRxCb\<close>: the copy stores \<open>newBytes\<close> bytes into \<open>vcomBufferRx\<close> from index 0;
  a store at or beyond \<open>VCOM_RX_BUFLEN\<close> is the fault.
\<close>

definition store_vcomBufferRx :: "uint8_t list \<Rightarrow> vcom_state \<Rightarrow> fault + vcom_state" where
  "store_vcomBufferRx bytes s =
     (if length bytes > unat VCOM_RX_BUFLEN then Inl OutOfBounds
      else Inr (s\<lparr>vcomBufferRx :=
                    (\<lambda>i. if i < length bytes then bytes ! i else vcomBufferRx s i)\<rparr>))"

definition vcomDataRxCb :: "vcom_state \<Rightarrow> fault + vcom_state" where
  "vcomDataRxCb s =
     (let s = s\<lparr>newBytes := ucast (usb_get_ep_rx_count VCOM_RX_ENDP (hw s))\<rparr>;
          s = s\<lparr>hw := usb_set_ep_rx_stat VCOM_RX_ENDP USB_EP_STAT_RX_NAK (hw s)\<rparr>
      in store_vcomBufferRx (usb_copy_from_pma (ucast (newBytes s)) VCOM_RX_ADDR (hw s)) s)"

section \<open>usb\_cdcacm.c: bus reset and class requests\<close>

text \<open>
  \<open>usbReset\<close>, statement by statement. \<open>pProperty\<close> is the library's pointer to this
  file's \<open>Device_Property\<close>, whose \<open>MaxPacketSize\<close> is \<open>MAX_PACKET_SIZE\<close>.
\<close>

definition usbReset :: "usb_lib \<Rightarrow> vcom_state \<Rightarrow> vcom_state" where
  "usbReset lib s =
     (let k = (stack s)\<lparr>Current_Configuration := 0\<rparr>;
          k = k\<lparr>Current_Feature :=
                  USB_CONFIG_ATTR_BUSPOWERED lib OR USB_CONFIG_ATTR_SELF_POWERED lib\<rparr>;
          h = (hw s)\<lparr>BTABLE := BTABLE_ADDRESS\<rparr>;
          h = usb_set_ep_type USB_EP0 USB_EP_EP_TYPE_CONTROL h;
          h = usb_set_ep_tx_stat USB_EP0 USB_EP_STAT_TX_STALL h;
          h = usb_set_ep_rx_addr USB_EP0 VCOM_CTRL_RX_ADDR h;
          h = usb_set_ep_tx_addr USB_EP0 VCOM_CTRL_TX_ADDR h;
          h = usb_clear_status_out USB_EP0 h;
          h = usb_set_ep_rx_count USB_EP0 MAX_PACKET_SIZE h;
          h = usb_set_ep_rx_stat USB_EP0 USB_EP_STAT_RX_VALID h;
          h = usb_set_ep_type VCOM_NOTIFICATION_ENDP USB_EP_EP_TYPE_INTERRUPT h;
          h = usb_set_ep_tx_addr VCOM_NOTIFICATION_ENDP VCOM_NOTIFICATION_ADDR h;
          h = usb_set_ep_tx_stat VCOM_NOTIFICATION_ENDP USB_EP_STAT_TX_NAK h;
          h = usb_set_ep_rx_stat VCOM_NOTIFICATION_ENDP USB_EP_STAT_RX_DISABLED h;
          h = usb_set_ep_type VCOM_RX_ENDP USB_EP_EP_TYPE_BULK h;
          h = usb_set_ep_rx_addr VCOM_RX_ENDP 0x110 h;
          h = usb_set_ep_rx_count VCOM_RX_ENDP 64 h;
          h = usb_set_ep_rx_stat VCOM_RX_ENDP USB_EP_STAT_RX_VALID h;
          h = usb_set_ep_type VCOM_TX_ENDP USB_EP_EP_TYPE_BULK h;
          h = usb_set_ep_tx_addr VCOM_TX_ENDP VCOM_TX_ADDR h;
          h = usb_set_ep_tx_stat VCOM_TX_ENDP USB_EP_STAT_TX_NAK h;
          h = usb_set_ep_rx_stat VCOM_TX_ENDP USB_EP_STAT_RX_DISABLED h;
          k = k\<lparr>USBLIB_state := USB_ATTACHED\<rparr>;
          h = SetDeviceAddress lib 0 h
      in s\<lparr>hw := h, stack := k, recvBufIn := 0, recvBufOut := 0,
            maxNewBytes := VCOM_RX_EPSIZE, countTx := 0\<rparr>)"

definition usbNoDataSetup :: "usb_lib \<Rightarrow> uint8_t \<Rightarrow> vcom_state \<Rightarrow> RESULT \<times> vcom_state" where
  "usbNoDataSetup lib request s =
     (if Type_Recipient (stack s) = (CLASS_REQUEST lib OR INTERFACE_RECIPIENT lib) then
        if request = SET_COMM_FEATURE then (USB_SUCCESS, s)
        else if request = SET_CONTROL_LINE_STATE then
          let new_signal = USBwValues_bb0 (stack s) AND (CONTROL_LINE_DTR OR CONTROL_LINE_RTS);
              s = s\<lparr>line_dtr_rts := new_signal AND 0x03\<rparr>;
              s = (case reset_state s of
                     DTR_UNSET \<Rightarrow>
                       if new_signal AND CONTROL_LINE_DTR = 0 then s\<lparr>reset_state := DTR_LOW\<rparr>
                       else s\<lparr>reset_state := DTR_HIGH\<rparr>
                   | DTR_HIGH \<Rightarrow>
                       if new_signal AND CONTROL_LINE_DTR = 0
                       then s\<lparr>reset_state := DTR_NEGEDGE\<rparr>
                       else s\<lparr>reset_state := DTR_HIGH\<rparr>
                   | DTR_NEGEDGE \<Rightarrow>
                       if new_signal AND CONTROL_LINE_DTR = 0 then s\<lparr>reset_state := DTR_LOW\<rparr>
                       else s\<lparr>reset_state := DTR_HIGH\<rparr>
                   | DTR_LOW \<Rightarrow>
                       if new_signal AND CONTROL_LINE_DTR = 0 then s\<lparr>reset_state := DTR_LOW\<rparr>
                       else s\<lparr>reset_state := DTR_HIGH\<rparr>)
          in (USB_SUCCESS, s)
        else (USB_UNSUPPORT, s)
      else (USB_UNSUPPORT, s))"

definition usbSetConfiguration :: "vcom_state \<Rightarrow> vcom_state" where
  "usbSetConfiguration s =
     (if Current_Configuration (stack s) \<noteq> 0
      then s\<lparr>stack := (stack s)\<lparr>USBLIB_state := USB_CONFIGURED\<rparr>\<rparr> else s)"

definition usbSetDeviceAddress :: "vcom_state \<Rightarrow> vcom_state" where
  "usbSetDeviceAddress s = s\<lparr>stack := (stack s)\<lparr>USBLIB_state := USB_ADDRESSED\<rparr>\<rparr>"

section \<open>Operations of the driver and their interleavings\<close>

datatype vcom_op =
    Op_tx "nat \<Rightarrow> uint8_t" uint32_t
  | Op_rx uint32_t
  | Op_TxCb
  | Op_RxCb
  | Op_Reset
  | Op_NoDataSetup uint8_t
  | Op_SetConfiguration
  | Op_SetDeviceAddress

fun step :: "usb_lib \<Rightarrow> vcom_op \<Rightarrow> vcom_state \<Rightarrow> fault + vcom_state" where
  "step lib (Op_tx buf len) s = Inr (snd (usb_cdcacm_tx buf len s))"
| "step lib (Op_rx len) s =
     (case usb_cdcacm_rx len s of Inl e \<Rightarrow> Inl e | Inr (buf, n, s') \<Rightarrow> Inr s')"
| "step lib Op_TxCb s = Inr (vcomDataTxCb s)"
| "step lib Op_RxCb s = vcomDataRxCb s"
| "step lib Op_Reset s = Inr (usbReset lib s)"
| "step lib (Op_NoDataSetup request) s = Inr (snd (usbNoDataSetup lib request s))"
| "step lib Op_SetConfiguration s = Inr (usbSetConfiguration s)"
| "step lib Op_SetDeviceAddress s = Inr (usbSetDeviceAddress s)"

fun run :: "usb_lib \<Rightarrow> vcom_op list \<Rightarrow> vcom_state \<Rightarrow> fault + vcom_state" where
  "run lib [] s = Inr s"
| "run lib (x # xs) s = (case step lib x s of Inl e \<Rightarrow> Inl e | Inr s' \<Rightarrow> run lib xs s')"


text \<open>
  The states reached when the peripheral keeps to the receive discipline: a completion
  comes only while \<open>newBytes\<close> is 0 and reports at most \<open>VCOM_RX_EPSIZE\<close> bytes. Bus
  resets, transmissions and line-state requests may come at any time.
\<close>

inductive disciplined :: "usb_lib \<Rightarrow> vcom_state \<Rightarrow> bool" for lib :: usb_lib where
  d_boot: "disciplined lib (boot_state h k)"
| d_reset: "disciplined lib s \<Longrightarrow> disciplined lib (usbReset lib s)"
| d_complete:
    "disciplined lib s \<Longrightarrow> newBytes s = 0 \<Longrightarrow>
     usb_get_ep_rx_count VCOM_RX_ENDP h' \<le> ucast VCOM_RX_EPSIZE \<Longrightarrow>
     vcomDataRxCb (s\<lparr>hw := h'\<rparr>) = Inr s' \<Longrightarrow> disciplined lib s'"
| d_call:
    "disciplined lib s \<Longrightarrow> usb_cdcacm_rx len s = Inr (buf, n, s') \<Longrightarrow> disciplined lib s'"
| d_tx: "disciplined lib s \<Longrightarrow> disciplined lib (snd (usb_cdcacm_tx buf len s))"
| d_txcb: "disciplined lib s \<Longrightarrow> disciplined lib (vcomDataTxCb s)"
| d_setup: "disciplined lib s \<Longrightarrow> disciplined lib (snd (usbNoDataSetup lib request s))"

text \<open>
  A sequence of \<open>usb_cdcacm_rx\<close> calls, logging for each call the bytes handed out, the
  count returned and \<open>newBytes\<close> after the call.
\<close>

fun rx_calls ::
  "uint32_t list \<Rightarrow> vcom_state \<Rightarrow>
   fault + ((uint8_t list \<times> uint32_t \<times> uint32_t) list \<times> vcom_state)" where
  "rx_calls [] s = Inr ([], s)"
| "rx_calls (len # lens) s =
     (case usb_cdcacm_rx len s of
        Inl e \<Rightarrow> Inl e
      | Inr (buf, n, s') \<Rightarrow>
          (case rx_calls lens s' of
             Inl e \<Rightarrow> Inl e
           | Inr (log, s'') \<Rightarrow> Inr ((buf, n, newBytes s') # log, s'')))"

section \<open>The specification's reading of the receive path and of the DTR detector\<close>

text \<open>
  What the specification promises of a sequence of receive calls after the bytes \<open>d\<close> were
  delivered: each call hands out the next \<open>min len available\<close> bytes, in order.
\<close>

fun rx_expected ::
  "uint8_t list \<Rightarrow> uint32_t list \<Rightarrow> (uint8_t list \<times> uint32_t \<times> uint32_t) list" where
  "rx_expected d [] = []"
| "rx_expected d (len # lens) =
     (let n = min (unat len) (length d)
      in (take n d, of_nat n, of_nat (length d - n)) # rx_expected (drop n d) lens)"

text \<open>
  The peripheral has received the packet \<open>pkt\<close> on the RX endpoint: the count field of the
  endpoint's descriptor reads its length and the endpoint's packet buffer holds its bytes.
\<close>

definition rx_packet_received :: "uint8_t list \<Rightarrow> usb_hw \<Rightarrow> bool" where
  "rx_packet_received pkt h \<longleftrightarrow>
     usb_get_ep_rx_count VCOM_RX_ENDP h = of_nat (length pkt)
     \<and> usb_copy_from_pma (of_nat (length pkt)) VCOM_RX_ADDR h = pkt"

text \<open>The transition table of section 4.5.\<close>

definition dtr_next :: "RESET_STATE \<Rightarrow> bool \<Rightarrow> RESET_STATE" where
  "dtr_next st dtr =
     (if dtr then DTR_HIGH else if st = DTR_HIGH then DTR_NEGEDGE else DTR_LOW)"

text \<open>A \<open>SET_CONTROL_LINE_STATE\<close> request with the value byte \<open>v\<close> arrives and is served.\<close>

definition line_state_request :: "usb_lib \<Rightarrow> uint8_t \<Rightarrow> vcom_state \<Rightarrow> vcom_state" where
  "line_state_request lib v s =
     snd (usbNoDataSetup lib SET_CONTROL_LINE_STATE
            (s\<lparr>stack := (stack s)\<lparr>Type_Recipient := CLASS_REQUEST lib OR INTERFACE_RECIPIENT lib,
                                   USBwValues_bb0 := v\<rparr>\<rparr>))"

section \<open>Concrete states\<close>

definition hw0 :: usb_hw where
  "hw0 = \<lparr>EP = (\<lambda>_. 0), BTABLE = 0, pma = (\<lambda>_. 0), rx_count_cfg = (\<lambda>_. 0)\<rparr>"

definition stack0 :: usb_stack where
  "stack0 = \<lparr>Current_Configuration = 0, Current_Feature = 0, Type_Recipient = 0x21,
             USBwValues_bb0 = 0, USBLIB_state = USB_UNCONNECTED\<rparr>"

definition lib0 :: usb_lib where
  "lib0 = \<lparr>USB_CONFIG_ATTR_BUSPOWERED = 0x80, USB_CONFIG_ATTR_SELF_POWERED = 0xC0,
           CLASS_REQUEST = 0x20, INTERFACE_RECIPIENT = 0x01,
           SetDeviceAddress = (\<lambda>_ h. h)\<rparr>"

text \<open>A state in the middle of a drain, with DTR and RTS high.\<close>

definition s_mid :: vcom_state where
  "s_mid = (boot_state hw0 stack0)\<lparr>newBytes := 5, rx_offset := 3, reset_state := DTR_HIGH,
                                   line_dtr_rts := 3\<rparr>"

definition buf0 :: "nat \<Rightarrow> uint8_t" where
  "buf0 i = of_nat (65 + i)"

text \<open>The state after a transmission of five bytes was accepted.\<close>

definition s_busy :: vcom_state where
  "s_busy = snd (usb_cdcacm_tx buf0 5 (boot_state hw0 stack0))"

text \<open>
  A state in which the count field of the RX endpoint's descriptor reads 1023, the largest
  value that passes the mask of \<open>usb_get_ep_rx_count\<close>.
\<close>

definition s_overrun :: vcom_state where
  "s_overrun =
     boot_state (hw0\<lparr>pma := (pma hw0)(usb_ep_rx_count_ptr VCOM_RX_ENDP hw0 := 0x3FF)\<rparr>) stack0"

text \<open>A state in whose packet memory the two-byte packet \<open>[0x68, 0x69]\<close> has arrived.\<close>

definition hw_pkt :: usb_hw where
  "hw_pkt = hw0\<lparr>pma := (pma hw0)(usb_ep_rx_count_ptr VCOM_RX_ENDP hw0 := 2,
                                    pma_byte_ptr VCOM_RX_ADDR 0 := 0x6968)\<rparr>"

text \<open>
  The ring buffer holds the bytes \<open>d\<close>, not yet handed out, from the read cursor on.
\<close>

definition rx_holds :: "uint8_t list \<Rightarrow> vcom_state \<Rightarrow> bool" where
  "rx_holds d s \<longleftrightarrow>
     newBytes s = of_nat (length d)
     \<and> unat (rx_offset s) + length d \<le> unat VCOM_RX_BUFLEN
     \<and> (\<forall>i < length d. vcomBufferRx s (i + unat (rx_offset s)) = d ! i)"

text \<open>The state after the callback has taken that packet from the initial state.\<close>

definition s_got :: vcom_state where
  "s_got = (case vcomDataRxCb (boot_state hw_pkt stack0) of
              Inr s \<Rightarrow> s | Inl e \<Rightarrow> boot_state hw_pkt stack0)"

text \<open>
  Modelled from the spec: what the peripheral does when a packet arrives on the RX endpoint
  is not in the C sources. Section 4.4 of the specification: at the RX-complete interrupt
  the received byte count is in the RX count field of the endpoint's descriptor and the
  bytes are in the endpoint's packet buffer. The peripheral takes a packet only while the
  endpoint is VALID.
\<close>

definition peripheral_receive :: "uint8_t list \<Rightarrow> usb_hw \<Rightarrow> usb_hw" where
  "peripheral_receive pkt h =
     usb_copy_to_pma (\<lambda>i. pkt ! i) (of_nat (length pkt)) VCOM_RX_ADDR
       (h\<lparr>pma := (pma h)(usb_ep_rx_count_ptr VCOM_RX_ENDP h := of_nat (length pkt))\<rparr>)"

text \<open>An eight-byte packet.\<close>

definition pkt8 :: "uint8_t list" where
  "pkt8 = [0x30, 0x31, 0x32, 0x33, 0x34, 0x35, 0x36, 0x37]"

text \<open>
  The state that a completion, and a receive call, lead to (the state itself where the
  operation faults).
\<close>

definition after_rx_complete :: "uint8_t list \<Rightarrow> vcom_state \<Rightarrow> vcom_state" where
  "after_rx_complete pkt s =
     (case vcomDataRxCb (s\<lparr>hw := peripheral_receive pkt (hw s)\<rparr>) of
        Inr s' \<Rightarrow> s' | Inl e \<Rightarrow> s)"

definition after_rx :: "uint32_t \<Rightarrow> vcom_state \<Rightarrow> vcom_state" where
  "after_rx len s = (case usb_cdcacm_rx len s of Inr (buf, n, s') \<Rightarrow> s' | Inl e \<Rightarrow> s)"

text \<open>
  A bus reset in the middle of a drain: reset, \<open>pkt8\<close> arrives, three bytes are read,
  reset again, \<open>[0x68, 0x69]\<close> arrives, two bytes are read.
\<close>

definition s_reset1 :: vcom_state where "s_reset1 = usbReset lib0 (boot_state hw0 stack0)"
definition s_first :: vcom_state where "s_first = after_rx_complete pkt8 s_reset1"
definition s_part :: vcom_state where "s_part = after_rx 3 s_first"
definition s_reset2 :: vcom_state where "s_reset2 = usbReset lib0 s_part"
definition s_second :: vcom_state where "s_second = after_rx_complete [0x68, 0x69] s_reset2"
definition s_stale :: vcom_state where "s_stale = after_rx 2 s_second"

section \<open>Status writes\<close>

lemmas ep_bit_defs =
  BIT_def USB_EP_CTR_RX_BIT_def USB_EP_DTOG_RX_BIT_def USB_EP_SETUP_BIT_def
  USB_EP_EP_KIND_BIT_def USB_EP_CTR_TX_BIT_def USB_EP_DTOG_TX_BIT_def
  USB_EP_CTR_RX_def USB_EP_DTOG_RX_def USB_EP_STAT_RX_def USB_EP_STAT_RX_DISABLED_def
  USB_EP_STAT_RX_STALL_def USB_EP_STAT_RX_NAK_def USB_EP_STAT_RX_VALID_def USB_EP_SETUP_def
  USB_EP_EP_TYPE_def USB_EP_EP_TYPE_BULK_def USB_EP_EP_TYPE_CONTROL_def USB_EP_EP_TYPE_ISO_def
  USB_EP_EP_TYPE_INTERRUPT_def USB_EP_EP_KIND_def USB_EP_CTR_TX_def USB_EP_DTOG_TX_def
  USB_EP_STAT_TX_def USB_EP_STAT_TX_DISABLED_def USB_EP_STAT_TX_STALL_def
  USB_EP_STAT_TX_NAK_def USB_EP_STAT_TX_VALID_def USB_EP_EA_def EP_CTR_NOP_def
  EP_NONTOGGLE_def

lemma toggle_write_field:
  fixes old status S T C :: uint32_t
  assumes S: "status AND NOT S = 0"
    and ST: "S AND NOT T = 0"
    and TC: "T AND C = 0"
  shows "((old XOR (((old AND NOT (T AND NOT S)) OR C) XOR status)) AND T)
         OR (old AND (((old AND NOT (T AND NOT S)) OR C) XOR status) AND C)
         OR ((((old AND NOT (T AND NOT S)) OR C) XOR status) AND NOT (T OR C))
         = (old AND NOT S) OR status"
proof (rule bit_word_eqI)
  fix n
  assume n: "n < LENGTH(32)"
  have s: "bit status n \<Longrightarrow> bit S n"
    using S n by (auto simp: bit_eq_iff bit_simps)
  have st: "bit S n \<Longrightarrow> bit T n"
    using ST n by (auto simp: bit_eq_iff bit_simps)
  have tc: "bit T n \<Longrightarrow> \<not> bit C n"
    using TC n by (auto simp: bit_eq_iff bit_simps)
  show "bit (((old XOR (((old AND NOT (T AND NOT S)) OR C) XOR status)) AND T)
         OR (old AND (((old AND NOT (T AND NOT S)) OR C) XOR status) AND C)
         OR ((((old AND NOT (T AND NOT S)) OR C) XOR status) AND NOT (T OR C))) n
        = bit ((old AND NOT S) OR status) n"
    using s st tc n by (auto simp: bit_simps)
qed

lemma rx_stat_write:
  assumes "status AND NOT USB_EP_STAT_RX = 0"
  shows "epr_hw_write old
           (((old AND NOT (USB_EP_STAT_TX OR USB_EP_DTOG_RX OR USB_EP_DTOG_TX)) OR EP_CTR_NOP)
            XOR status)
         = (old AND NOT USB_EP_STAT_RX) OR status"
proof -
  have eq: "USB_EP_STAT_TX OR USB_EP_DTOG_RX OR USB_EP_DTOG_TX
            = EP_TOGGLE_BITS AND NOT USB_EP_STAT_RX"
    by (simp add: ep_bit_defs EP_TOGGLE_BITS_def)
  have st: "USB_EP_STAT_RX AND NOT EP_TOGGLE_BITS = 0"
    by (simp add: ep_bit_defs EP_TOGGLE_BITS_def)
  have tc: "EP_TOGGLE_BITS AND EP_CTR_NOP = 0"
    by (simp add: ep_bit_defs EP_TOGGLE_BITS_def)
  show ?thesis
    unfolding epr_hw_write_def eq by (rule toggle_write_field [OF assms st tc])
qed

lemma tx_stat_write:
  assumes "status AND NOT USB_EP_STAT_TX = 0"
  shows "epr_hw_write old
           (((old AND NOT (USB_EP_STAT_RX OR USB_EP_DTOG_RX OR USB_EP_DTOG_TX)) OR EP_CTR_NOP)
            XOR status)
         = (old AND NOT USB_EP_STAT_TX) OR status"
proof -
  have eq: "USB_EP_STAT_RX OR USB_EP_DTOG_RX OR USB_EP_DTOG_TX
            = EP_TOGGLE_BITS AND NOT USB_EP_STAT_TX"
    by (simp add: ep_bit_defs EP_TOGGLE_BITS_def)
  have st: "USB_EP_STAT_TX AND NOT EP_TOGGLE_BITS = 0"
    by (simp add: ep_bit_defs EP_TOGGLE_BITS_def)
  have tc: "EP_TOGGLE_BITS AND EP_CTR_NOP = 0"
    by (simp add: ep_bit_defs EP_TOGGLE_BITS_def)
  show ?thesis
    unfolding epr_hw_write_def eq by (rule toggle_write_field [OF assms st tc])
qed

lemma EP_usb_set_ep_rx_stat:
  "status AND NOT USB_EP_STAT_RX = 0 \<Longrightarrow>
   EP (usb_set_ep_rx_stat ep status h) =
     (EP h)(ep := (EP h ep AND NOT USB_EP_STAT_RX) OR status)"
  using rx_stat_write [of status "EP h ep"]
  by (simp add: usb_set_ep_rx_stat_def ep_store_def Let_def)

lemma EP_usb_set_ep_tx_stat:
  "status AND NOT USB_EP_STAT_TX = 0 \<Longrightarrow>
   EP (usb_set_ep_tx_stat ep status h) =
     (EP h)(ep := (EP h ep AND NOT USB_EP_STAT_TX) OR status)"
  using tx_stat_write [of status "EP h ep"]
  by (simp add: usb_set_ep_tx_stat_def ep_store_def Let_def)

lemma field_kept:
  fixes r status S M :: uint32_t
  assumes "status AND NOT S = 0" and "M AND S = 0"
  shows "((r AND NOT S) OR status) AND M = r AND M"
proof (rule bit_word_eqI)
  fix n assume n: "n < LENGTH(32)"
  have a: "bit status n \<Longrightarrow> bit S n"
    using assms(1) n by (auto simp: bit_eq_iff bit_simps)
  have b: "bit M n \<Longrightarrow> \<not> bit S n"
    using assms(2) n by (auto simp: bit_eq_iff bit_simps)
  show "bit (((r AND NOT S) OR status) AND M) n = bit (r AND M) n"
    using a b n by (auto simp: bit_simps)
qed

lemma field_set:
  fixes r status S :: uint32_t
  assumes "status AND NOT S = 0"
  shows "((r AND NOT S) OR status) AND S = status"
proof (rule bit_word_eqI)
  fix n assume n: "n < LENGTH(32)"
  have a: "bit status n \<Longrightarrow> bit S n"
    using assms(1) n by (auto simp: bit_eq_iff bit_simps)
  show "bit (((r AND NOT S) OR status) AND S) n = bit status n"
    using a n by (auto simp: bit_simps)
qed

lemma rx_status_values:
  "status \<in> {USB_EP_STAT_RX_DISABLED, USB_EP_STAT_RX_STALL, USB_EP_STAT_RX_NAK,
              USB_EP_STAT_RX_VALID} \<Longrightarrow> status AND NOT USB_EP_STAT_RX = 0"
  by (auto simp: ep_bit_defs)

lemma tx_status_values:
  "status \<in> {USB_EP_STAT_TX_DISABLED, USB_EP_STAT_TX_STALL, USB_EP_STAT_TX_NAK,
              USB_EP_STAT_TX_VALID} \<Longrightarrow> status AND NOT USB_EP_STAT_TX = 0"
  by (auto simp: ep_bit_defs)


text \<open>
  Claim C1. For every endpoint register value and each of the four 2-bit status values,
  \<open>usb_set_ep_rx_stat\<close> (and likewise \<open>usb_set_ep_tx_stat\<close>) followed by a read of the
  register, under the peripheral's write semantics, gives exactly the requested status in
  the target direction; the other direction's status, both data-toggle bits, both
  transfer-complete flags, the endpoint type, kind, setup flag and address are unchanged.
\<close>

theorem status_set_protocol:
  assumes rx: "rxs \<in> {USB_EP_STAT_RX_DISABLED, USB_EP_STAT_RX_STALL, USB_EP_STAT_RX_NAK,
                       USB_EP_STAT_RX_VALID}"
    and tx: "txs \<in> {USB_EP_STAT_TX_DISABLED, USB_EP_STAT_TX_STALL, USB_EP_STAT_TX_NAK,
                     USB_EP_STAT_TX_VALID}"
  shows "(let r = EP h ep; r' = EP (usb_set_ep_rx_stat ep rxs h) ep in
            r' AND USB_EP_STAT_RX = rxs
          \<and> r' AND USB_EP_STAT_TX = r AND USB_EP_STAT_TX
          \<and> r' AND USB_EP_DTOG_RX = r AND USB_EP_DTOG_RX
          \<and> r' AND USB_EP_DTOG_TX = r AND USB_EP_DTOG_TX
          \<and> r' AND USB_EP_CTR_RX = r AND USB_EP_CTR_RX
          \<and> r' AND USB_EP_CTR_TX = r AND USB_EP_CTR_TX
          \<and> r' AND USB_EP_EP_TYPE = r AND USB_EP_EP_TYPE
          \<and> r' AND USB_EP_EP_KIND = r AND USB_EP_EP_KIND
          \<and> r' AND USB_EP_SETUP = r AND USB_EP_SETUP
          \<and> r' AND USB_EP_EA = r AND USB_EP_EA)
       \<and> (let r = EP h ep; r' = EP (usb_set_ep_tx_stat ep txs h) ep in
            r' AND USB_EP_STAT_TX = txs
          \<and> r' AND USB_EP_STAT_RX = r AND USB_EP_STAT_RX
          \<and> r' AND USB_EP_DTOG_RX = r AND USB_EP_DTOG_RX
          \<and> r' AND USB_EP_DTOG_TX = r AND USB_EP_DTOG_TX
          \<and> r' AND USB_EP_CTR_RX = r AND USB_EP_CTR_RX
          \<and> r' AND USB_EP_CTR_TX = r AND USB_EP_CTR_TX
          \<and> r' AND USB_EP_EP_TYPE = r AND USB_EP_EP_TYPE
          \<and> r' AND USB_EP_EP_KIND = r AND USB_EP_EP_KIND
          \<and> r' AND USB_EP_SETUP = r AND USB_EP_SETUP
          \<and> r' AND USB_EP_EA = r AND USB_EP_EA)"
proof -
  note r = rx_status_values [OF rx]
  note t = tx_status_values [OF tx]
  have kr: "\<And>M. M AND USB_EP_STAT_RX = 0 \<Longrightarrow>
      ((EP h ep AND NOT USB_EP_STAT_RX) OR rxs) AND M = EP h ep AND M"
    by (rule field_kept [OF r])
  have kt: "\<And>M. M AND USB_EP_STAT_TX = 0 \<Longrightarrow>
      ((EP h ep AND NOT USB_EP_STAT_TX) OR txs) AND M = EP h ep AND M"
    by (rule field_kept [OF t])
  have disj:
    "USB_EP_STAT_TX AND USB_EP_STAT_RX = 0" "USB_EP_STAT_RX AND USB_EP_STAT_TX = 0"
    "USB_EP_DTOG_RX AND USB_EP_STAT_RX = 0" "USB_EP_DTOG_RX AND USB_EP_STAT_TX = 0"
    "USB_EP_DTOG_TX AND USB_EP_STAT_RX = 0" "USB_EP_DTOG_TX AND USB_EP_STAT_TX = 0"
    "USB_EP_CTR_RX AND USB_EP_STAT_RX = 0" "USB_EP_CTR_RX AND USB_EP_STAT_TX = 0"
    "USB_EP_CTR_TX AND USB_EP_STAT_RX = 0" "USB_EP_CTR_TX AND USB_EP_STAT_TX = 0"
    "USB_EP_EP_TYPE AND USB_EP_STAT_RX = 0" "USB_EP_EP_TYPE AND USB_EP_STAT_TX = 0"
    "USB_EP_EP_KIND AND USB_EP_STAT_RX = 0" "USB_EP_EP_KIND AND USB_EP_STAT_TX = 0"
    "USB_EP_SETUP AND USB_EP_STAT_RX = 0" "USB_EP_SETUP AND USB_EP_STAT_TX = 0"
    "USB_EP_EA AND USB_EP_STAT_RX = 0" "USB_EP_EA AND USB_EP_STAT_TX = 0"
    by (simp_all add: ep_bit_defs)
  show ?thesis
    unfolding Let_def EP_usb_set_ep_rx_stat [OF r] EP_usb_set_ep_tx_stat [OF t] fun_upd_same
    by (intro conjI field_set [OF r] field_set [OF t] kr kt disj)
qed

theorem status_set_protocol_witness:
  "USB_EP_STAT_RX_NAK \<in> {USB_EP_STAT_RX_DISABLED, USB_EP_STAT_RX_STALL, USB_EP_STAT_RX_NAK,
                          USB_EP_STAT_RX_VALID}
   \<and> USB_EP_STAT_TX_VALID \<in> {USB_EP_STAT_TX_DISABLED, USB_EP_STAT_TX_STALL,
                             USB_EP_STAT_TX_NAK, USB_EP_STAT_TX_VALID}
   \<and> EP (usb_set_ep_rx_stat 3 USB_EP_STAT_RX_NAK (hw0\<lparr>EP := (\<lambda>_. 0xF7F3)\<rparr>)) 3
         AND USB_EP_STAT_RX = USB_EP_STAT_RX_NAK
   \<and> EP (usb_set_ep_rx_stat 3 USB_EP_STAT_RX_NAK (hw0\<lparr>EP := (\<lambda>_. 0xF7F3)\<rparr>)) 3
         AND USB_EP_DTOG_RX = 0xF7F3 AND USB_EP_DTOG_RX
   \<and> EP (usb_set_ep_tx_stat 3 USB_EP_STAT_TX_VALID (hw0\<lparr>EP := (\<lambda>_. 0xF7F3)\<rparr>)) 3
         AND USB_EP_STAT_TX = USB_EP_STAT_TX_VALID
   \<and> EP (usb_set_ep_tx_stat 3 USB_EP_STAT_TX_VALID (hw0\<lparr>EP := (\<lambda>_. 0xF7F3)\<rparr>)) 3
         AND USB_EP_STAT_RX = 0xF7F3 AND USB_EP_STAT_RX"
proof -
  have a: "USB_EP_STAT_RX_NAK \<in> {USB_EP_STAT_RX_DISABLED, USB_EP_STAT_RX_STALL,
             USB_EP_STAT_RX_NAK, USB_EP_STAT_RX_VALID}"
    by simp
  have b: "USB_EP_STAT_TX_VALID \<in> {USB_EP_STAT_TX_DISABLED, USB_EP_STAT_TX_STALL,
             USB_EP_STAT_TX_NAK, USB_EP_STAT_TX_VALID}"
    by simp
  show ?thesis
    using a b status_set_protocol [OF a b, of "hw0\<lparr>EP := (\<lambda>_. 0xF7F3)\<rparr>" 3]
    by (simp add: Let_def)
qed

section \<open>Buffer descriptor table\<close>

lemma ucast16_32_16 [simp]: "(ucast (ucast (x :: uint16_t) :: uint32_t) :: uint16_t) = x"
  by (simp add: ucast_up_ucast_id is_up)





section \<open>Line state\<close>

lemma dtr_bit: "((v :: uint8_t) AND (CONTROL_LINE_DTR OR CONTROL_LINE_RTS)) AND CONTROL_LINE_DTR = 0 \<longleftrightarrow> \<not> bit v 0"
proof -
  have "(v AND (CONTROL_LINE_DTR OR CONTROL_LINE_RTS)) AND CONTROL_LINE_DTR = v AND 1"
    by (rule bit_word_eqI) (auto simp: bit_simps CONTROL_LINE_DTR_def CONTROL_LINE_RTS_def)
  then show ?thesis by (simp add: and_one_eq bit_0 even_iff_mod_2_eq_zero)
qed

lemma dtr_rts_mask: "((v :: uint8_t) AND (CONTROL_LINE_DTR OR CONTROL_LINE_RTS)) AND 0x03 = v AND 0x03"
  by (rule bit_word_eqI) (auto simp: bit_simps CONTROL_LINE_DTR_def CONTROL_LINE_RTS_def)

lemma usbNoDataSetup_line_state:
  assumes "Type_Recipient (stack s) = CLASS_REQUEST lib OR INTERFACE_RECIPIENT lib"
  shows "usbNoDataSetup lib SET_CONTROL_LINE_STATE s =
           (USB_SUCCESS,
            s\<lparr>line_dtr_rts := USBwValues_bb0 (stack s) AND 0x03,
              reset_state := dtr_next (reset_state s) (bit (USBwValues_bb0 (stack s)) 0)\<rparr>)"
  using assms
  by (cases "reset_state s")
     (simp_all add: usbNoDataSetup_def Let_def dtr_bit dtr_rts_mask dtr_next_def
        SET_CONTROL_LINE_STATE_def SET_COMM_FEATURE_def)

lemma line_state_request_eq:
  "line_state_request lib v s =
     s\<lparr>stack := (stack s)\<lparr>Type_Recipient := CLASS_REQUEST lib OR INTERFACE_RECIPIENT lib,
                          USBwValues_bb0 := v\<rparr>,
       line_dtr_rts := v AND 0x03,
       reset_state := dtr_next (reset_state s) (bit v 0)\<rparr>"
  by (simp add: line_state_request_def usbNoDataSetup_line_state)

text \<open>
  Claim C6. For every state of the reset detector and every \<open>SET_CONTROL_LINE_STATE\<close>
  request, the handler stores the DTR and RTS bits of the request's value byte and then
  moves the detector as a function of the new DTR bit and the current state: to \<open>DTR_HIGH\<close>
  when DTR is 1; when DTR is 0, from \<open>DTR_HIGH\<close> to \<open>DTR_NEGEDGE\<close> and from every other
  state to \<open>DTR_LOW\<close>. From \<open>DTR_UNSET\<close> the DTR bits 1, 0, 0, 1 visit \<open>DTR_HIGH\<close>,
  \<open>DTR_NEGEDGE\<close>, \<open>DTR_LOW\<close>, \<open>DTR_HIGH\<close>.
\<close>

theorem dtr_detector:
  assumes "Type_Recipient (stack s) = CLASS_REQUEST lib OR INTERFACE_RECIPIENT lib"
  shows "usbNoDataSetup lib SET_CONTROL_LINE_STATE s =
           (USB_SUCCESS,
            s\<lparr>line_dtr_rts := USBwValues_bb0 (stack s) AND 0x03,
              reset_state := dtr_next (reset_state s) (bit (USBwValues_bb0 (stack s)) 0)\<rparr>)
         \<and> (reset_state s = DTR_UNSET \<longrightarrow>
              (let s1 = line_state_request lib 1 s;
                   s2 = line_state_request lib 0 s1;
                   s3 = line_state_request lib 0 s2;
                   s4 = line_state_request lib 1 s3
               in map reset_state [s1, s2, s3, s4]
                  = [DTR_HIGH, DTR_NEGEDGE, DTR_LOW, DTR_HIGH]))"
  using usbNoDataSetup_line_state [OF assms]
  by (simp add: line_state_request_eq dtr_next_def Let_def)

theorem dtr_detector_witness:
  "Type_Recipient (stack (boot_state hw0 stack0)) = CLASS_REQUEST lib0 OR INTERFACE_RECIPIENT lib0
   \<and> reset_state (boot_state hw0 stack0) = DTR_UNSET
   \<and> reset_state (snd (usbNoDataSetup lib0 SET_CONTROL_LINE_STATE (boot_state hw0 stack0)))
       = DTR_LOW
   \<and> map reset_state
        [line_state_request lib0 1 (boot_state hw0 stack0),
         line_state_request lib0 0 (line_state_request lib0 1 (boot_state hw0 stack0)),
         line_state_request lib0 0
           (line_state_request lib0 0 (line_state_request lib0 1 (boot_state hw0 stack0))),
         line_state_request lib0 1
           (line_state_request lib0 0
             (line_state_request lib0 0 (line_state_request lib0 1 (boot_state hw0 stack0))))]
       = [DTR_HIGH, DTR_NEGEDGE, DTR_LOW, DTR_HIGH]"
proof -
  have a: "Type_Recipient (stack (boot_state hw0 stack0))
           = CLASS_REQUEST lib0 OR INTERFACE_RECIPIENT lib0"
    by (simp add: boot_state_def stack0_def lib0_def)
  have b: "reset_state (boot_state hw0 stack0) = DTR_UNSET"
    by (simp add: boot_state_def)
  have c: "\<not> bit (USBwValues_bb0 (stack (boot_state hw0 stack0))) 0"
    by (simp add: boot_state_def stack0_def)
  show ?thesis
    using a b c dtr_detector [OF a]
    by (simp add: Let_def dtr_next_def)
qed

section \<open>Bus reset\<close>

text \<open>
  Claim C7, as stated: after \<open>usbReset\<close> the TX in-flight counter, the RX available count,
  the RX read cursor, the ring-buffer bookkeeping fields and the line state and reset
  detector all hold the values of first initialisation, whatever the state before. It fails:
  a reset in the middle of a drain, with DTR high, keeps the detector, the line bits, the
  available count and the read cursor, and sets \<open>maxNewBytes\<close> to \<open>VCOM_RX_EPSIZE\<close>, not to
  its initial \<open>VCOM_RX_BUFLEN\<close>.
\<close>

theorem usbReset_reinit_counterexample:
  "reset_state (usbReset lib0 s_mid) \<noteq> reset_state (boot_state hw0 stack0)
   \<and> line_dtr_rts (usbReset lib0 s_mid) \<noteq> line_dtr_rts (boot_state hw0 stack0)
   \<and> newBytes (usbReset lib0 s_mid) \<noteq> newBytes (boot_state hw0 stack0)
   \<and> rx_offset (usbReset lib0 s_mid) \<noteq> rx_offset (boot_state hw0 stack0)
   \<and> maxNewBytes (usbReset lib0 s_mid) \<noteq> maxNewBytes (boot_state hw0 stack0)"
  by (simp add: usbReset_def s_mid_def boot_state_def Let_def VCOM_RX_BUFLEN_def
        VCOM_RX_EPSIZE_def)

text \<open>
  Claim C7, amended. \<open>usbReset\<close> sets the TX in-flight counter \<open>countTx\<close> and the
  ring-buffer indices \<open>recvBufIn\<close> and \<open>recvBufOut\<close> to 0, their values at first
  initialisation, whatever the state before; it leaves the line-state bits and the reset
  detector as they were.
\<close>

theorem usbReset_reinit:
  "countTx (usbReset lib s) = 0 \<and> countTx (boot_state h k) = 0
   \<and> recvBufIn (usbReset lib s) = 0 \<and> recvBufIn (boot_state h k) = 0
   \<and> recvBufOut (usbReset lib s) = 0 \<and> recvBufOut (boot_state h k) = 0
   \<and> reset_state (usbReset lib s) = reset_state s
   \<and> line_dtr_rts (usbReset lib s) = line_dtr_rts s"
  by (simp add: usbReset_def boot_state_def Let_def)

section \<open>Transmission\<close>

lemma boot_state_fields [simp]:
  "newBytes (boot_state h k) = 0" "rx_offset (boot_state h k) = 0" "hw (boot_state h k) = h"
  "countTx (boot_state h k) = 0"
  by (simp_all add: boot_state_def)

lemma usbReset_fields [simp]:
  "countTx (usbReset lib s) = 0"
  "newBytes (usbReset lib s) = newBytes s"
  "rx_offset (usbReset lib s) = rx_offset s"
  by (simp_all add: usbReset_def Let_def)

lemma usb_cdcacm_tx_busy: "countTx s \<noteq> 0 \<Longrightarrow> usb_cdcacm_tx buf len s = (0, s)"
  by (simp add: usb_cdcacm_tx_def)

lemma usb_cdcacm_tx_fields [simp]:
  "newBytes (snd (usb_cdcacm_tx buf len s)) = newBytes s"
  "rx_offset (snd (usb_cdcacm_tx buf len s)) = rx_offset s"
  by (simp_all add: usb_cdcacm_tx_def Let_def)

lemma usb_cdcacm_tx_countTx:
  "countTx s = 0 \<Longrightarrow> countTx (snd (usb_cdcacm_tx buf len s)) = fst (usb_cdcacm_tx buf len s)"
  by (simp add: usb_cdcacm_tx_def Let_def)

lemma usb_cdcacm_rx_countTx:
  "usb_cdcacm_rx len s = Inr (buf, n, s') \<Longrightarrow> countTx s' = countTx s"
  by (auto simp: usb_cdcacm_rx_def Let_def split: if_splits)

lemma vcomDataRxCb_countTx: "vcomDataRxCb s = Inr s' \<Longrightarrow> countTx s' = countTx s"
  by (auto simp: vcomDataRxCb_def store_vcomBufferRx_def Let_def split: if_splits)

lemma usbNoDataSetup_fields [simp]:
  "countTx (snd (usbNoDataSetup lib request s)) = countTx s"
  "newBytes (snd (usbNoDataSetup lib request s)) = newBytes s"
  "rx_offset (snd (usbNoDataSetup lib request s)) = rx_offset s"
  by (simp_all add: usbNoDataSetup_def Let_def split: RESET_STATE.splits)

lemma step_countTx:
  assumes "step lib x s = Inr s'" and "x \<noteq> Op_TxCb" and "x \<noteq> Op_Reset"
    and "countTx s \<noteq> 0"
  shows "countTx s' = countTx s"
proof (cases x)
  case (Op_tx buf len)
  with assms show ?thesis by (auto simp: usb_cdcacm_tx_busy)
next
  case (Op_rx len)
  with assms show ?thesis
    by (auto split: sum.splits dest: usb_cdcacm_rx_countTx)
next
  case Op_RxCb
  with assms show ?thesis by (auto dest: vcomDataRxCb_countTx)
next
  case (Op_NoDataSetup request)
  with assms show ?thesis by auto
next
  case Op_SetConfiguration
  with assms show ?thesis by (auto simp: usbSetConfiguration_def)
next
  case Op_SetDeviceAddress
  with assms show ?thesis by (auto simp: usbSetDeviceAddress_def)
qed (use assms in auto)

lemma run_countTx:
  "run lib xs s = Inr s' \<Longrightarrow> Op_TxCb \<notin> set xs \<Longrightarrow> Op_Reset \<notin> set xs \<Longrightarrow> countTx s \<noteq> 0
   \<Longrightarrow> countTx s' = countTx s"
proof (induction xs arbitrary: s)
  case Nil
  then show ?case by simp
next
  case (Cons x xs)
  from Cons.prems(1) obtain s1 where s1: "step lib x s = Inr s1" and r: "run lib xs s1 = Inr s'"
    by (auto split: sum.splits)
  from Cons.prems have x: "x \<noteq> Op_TxCb" "x \<noteq> Op_Reset" by auto
  have c: "countTx s1 = countTx s"
    by (rule step_countTx [OF s1 x Cons.prems(4)])
  with Cons.IH [OF r] Cons.prems show ?case by auto
qed

lemma countTx_s_busy: "countTx s_busy = 5"
  by (simp add: s_busy_def usb_cdcacm_tx_def boot_state_def Let_def VCOM_TX_EPSIZE_def)

text \<open>
  Claim C2, as stated: \<open>vcomDataTxCb\<close> is the only operation that sets a nonzero \<open>countTx\<close>
  to 0. It fails: the bus-reset handler does so too.
\<close>

theorem tx_only_callback_clears_counterexample:
  "countTx s_busy \<noteq> 0
   \<and> step lib0 Op_Reset s_busy = Inr (usbReset lib0 s_busy)
   \<and> countTx (usbReset lib0 s_busy) = 0
   \<and> Op_Reset \<noteq> Op_TxCb"
  by (simp add: countTx_s_busy)

text \<open>
  Claim C2, amended. While \<open>countTx\<close> is nonzero, every call of \<open>usb_cdcacm_tx\<close> returns 0
  and leaves the whole state unchanged; after a call that accepts \<open>n > 0\<close> bytes, \<open>countTx\<close>
  is \<open>n\<close>, and it keeps its value through every sequence of operations that contains
  neither the TX-complete callback nor a bus reset; \<open>vcomDataTxCb\<close> and \<open>usbReset\<close> set it
  to 0 and are the only operations that do.
\<close>

theorem tx_in_flight:
  "(countTx s \<noteq> 0 \<longrightarrow> usb_cdcacm_tx buf len s = (0, s))
   \<and> (countTx s = 0 \<and> fst (usb_cdcacm_tx buf len s) \<noteq> 0 \<longrightarrow>
        countTx (snd (usb_cdcacm_tx buf len s)) = fst (usb_cdcacm_tx buf len s))
   \<and> (countTx s \<noteq> 0 \<and> Op_TxCb \<notin> set xs \<and> Op_Reset \<notin> set xs \<and> run lib xs s = Inr s' \<longrightarrow>
        countTx s' = countTx s)
   \<and> countTx (vcomDataTxCb s) = 0
   \<and> countTx (usbReset lib s) = 0
   \<and> (countTx s \<noteq> 0 \<and> step lib x s = Inr s' \<and> countTx s' = 0 \<longrightarrow>
        x = Op_TxCb \<or> x = Op_Reset)"
proof -
  have "x = Op_TxCb \<or> x = Op_Reset"
    if "countTx s \<noteq> 0" "step lib x s = Inr s'" "countTx s' = 0"
    using step_countTx [OF that(2)] that by auto
  then show ?thesis
    by (auto simp: usb_cdcacm_tx_busy usb_cdcacm_tx_countTx vcomDataTxCb_def
          dest: run_countTx)
qed

theorem tx_in_flight_witness:
  "countTx s_busy \<noteq> 0
   \<and> usb_cdcacm_tx buf0 7 s_busy = (0, s_busy)
   \<and> countTx (boot_state hw0 stack0) = 0
   \<and> fst (usb_cdcacm_tx buf0 5 (boot_state hw0 stack0)) = 5
   \<and> countTx (snd (usb_cdcacm_tx buf0 5 (boot_state hw0 stack0))) = 5
   \<and> Op_TxCb \<notin> set [Op_tx buf0 7, Op_SetDeviceAddress]
   \<and> Op_Reset \<notin> set [Op_tx buf0 7, Op_SetDeviceAddress]
   \<and> run lib0 [Op_tx buf0 7, Op_SetDeviceAddress] s_busy = Inr (usbSetDeviceAddress s_busy)
   \<and> countTx (usbSetDeviceAddress s_busy) = countTx s_busy
   \<and> step lib0 Op_TxCb s_busy = Inr (vcomDataTxCb s_busy)
   \<and> countTx (vcomDataTxCb s_busy) = 0"
proof -
  have a: "countTx s_busy \<noteq> 0" by (simp add: countTx_s_busy)
  have b: "countTx (boot_state hw0 stack0) = 0" by (simp add: boot_state_def)
  have c: "fst (usb_cdcacm_tx buf0 5 (boot_state hw0 stack0)) = 5"
    by (simp add: usb_cdcacm_tx_def boot_state_def Let_def VCOM_TX_EPSIZE_def)
  have d: "run lib0 [Op_tx buf0 7, Op_SetDeviceAddress] s_busy = Inr (usbSetDeviceAddress s_busy)"
    using a by (simp add: usb_cdcacm_tx_busy)
  show ?thesis
    using a b c d
      tx_in_flight [of s_busy buf0 7 "[Op_tx buf0 7, Op_SetDeviceAddress]" lib0
                       "usbSetDeviceAddress s_busy" Op_TxCb]
      tx_in_flight [of "boot_state hw0 stack0" buf0 5 "[]" lib0 "boot_state hw0 stack0" Op_TxCb]
    by simp
qed

section \<open>Packet memory\<close>

lemma unat_ucast_16_32: "unat (ucast (k :: uint16_t) :: uint32_t) = unat k"
proof -
  have "unat k < 2 ^ 32"
    using unsigned_less [of k, where 'a = nat] by simp
  then have "take_bit 32 (unat k) = unat k"
    by (intro take_bit_nat_eq_self) simp
  then show ?thesis by (simp add: unsigned_ucast_eq)
qed

lemma mask_ff: "(0xFF :: uint32_t) = mask 8" "(0xFF00 :: uint32_t) = push_bit 8 (mask 8)"
  by (simp_all add: mask_eq_exp_minus_1 push_bit_eq_mult)

lemma lane_get_set: "lane_get x (lane_set y b w) = (if x = y then b else lane_get x w)"
  unfolding lane_get_def lane_set_def mask_ff
  by (cases x; cases y; simp only: if_True if_False simp_thms; rule bit_word_eqI)
     (auto simp: bit_simps dest: bit_imp_le_length)

lemma pma_byte_ptr_of_nat:
  "pma_byte_ptr off i = (USB_PMA_BASE + 2 * ucast off) + of_nat (4 * (i div 2))"
  by (simp add: pma_byte_ptr_def usb_pma_ptr_def algebra_simps)

lemma of_nat_32_inj:
  "a < 2 ^ 32 \<Longrightarrow> b < 2 ^ 32 \<Longrightarrow> (of_nat a :: uint32_t) = of_nat b \<longleftrightarrow> a = b"
  by (simp add: word_of_nat_eq_iff take_bit_nat_eq_self)

lemma pma_byte_ptr_eq_iff:
  assumes "i < 2 ^ 16" and "j < 2 ^ 16"
  shows "pma_byte_ptr off i = pma_byte_ptr off j \<longleftrightarrow> i div 2 = j div 2"
proof -
  have "4 * (i div 2) < 2 ^ 32" "4 * (j div 2) < 2 ^ 32"
    using assms by auto
  then show ?thesis
    by (simp add: pma_byte_ptr_of_nat of_nat_32_inj del: of_nat_mult)
qed

lemma pma_get_set_byte:
  assumes "i < 2 ^ 16" and "j < 2 ^ 16"
  shows "pma_get_byte (pma_set_byte off i b h) off j
         = (if i = j then b else pma_get_byte h off j)"
proof (cases "i div 2 = j div 2")
  case True
  then have p: "pma_byte_ptr off i = pma_byte_ptr off j"
    by (simp add: pma_byte_ptr_def)
  from True have "i = j \<or> even i \<noteq> even j"
    by (metis div_mod_decomp even_iff_mod_2_eq_zero odd_iff_mod_2_eq_one)
  then show ?thesis
    using p by (auto simp: pma_get_byte_def pma_set_byte_def Let_def lane_get_set)
next
  case False
  then have "pma_byte_ptr off i \<noteq> pma_byte_ptr off j"
    using pma_byte_ptr_eq_iff [OF assms] by simp
  with False show ?thesis
    by (auto simp: pma_get_byte_def pma_set_byte_def Let_def)
qed

lemma pma_get_byte_fold:
  assumes "n \<le> 2 ^ 16" and "j < 2 ^ 16"
  shows "pma_get_byte (fold (\<lambda>i. pma_set_byte off i (buf i)) [0..<n] h) off j
         = (if j < n then buf j else pma_get_byte h off j)"
  using assms(1)
proof (induction n)
  case 0
  then show ?case by simp
next
  case (Suc n)
  then show ?case
    using assms(2) by (auto simp: pma_get_set_byte)
qed

lemma pma_get_byte_copy:
  assumes "j < 2 ^ 16"
  shows "pma_get_byte (usb_copy_to_pma buf len off h) off j
         = (if j < unat len then buf j else pma_get_byte h off j)"
proof -
  have "unat len \<le> 2 ^ 16"
    using unsigned_less [of len, where 'a = nat] by simp
  then show ?thesis
    unfolding usb_copy_to_pma_def by (rule pma_get_byte_fold [OF _ assms])
qed

lemma copy_round_trip:
  "usb_copy_from_pma len off (usb_copy_to_pma buf len off h) = map buf [0..<unat len]"
proof -
  have "j < 2 ^ 16" if "j < unat len" for j
    using that unsigned_less [of len, where 'a = nat] by simp
  then show ?thesis
    by (auto simp: usb_copy_from_pma_def pma_get_byte_copy)
qed

section \<open>Accepting a transmission\<close>

lemma tx_count_ptr_not_tx_buffer:
  assumes "BTABLE h = BTABLE_ADDRESS" and "j < 2 ^ 16"
  shows "pma_byte_ptr VCOM_TX_ADDR j \<noteq> usb_ep_tx_count_ptr VCOM_TX_ENDP h"
proof -
  have l: "usb_ep_tx_count_ptr VCOM_TX_ENDP h = USB_PMA_BASE + of_nat 20"
    using assms(1)
    by (simp add: usb_ep_tx_count_ptr_def usb_btable_ptr_def usb_pma_ptr_def VCOM_TX_ENDP_def
          BTABLE_ADDRESS_def)
  have r: "pma_byte_ptr VCOM_TX_ADDR j = USB_PMA_BASE + of_nat (384 + 4 * (j div 2))"
    by (simp add: pma_byte_ptr_of_nat VCOM_TX_ADDR_def)
  have "384 + 4 * (j div 2) < 2 ^ 32"
    using assms(2) by auto
  then have "(of_nat (384 + 4 * (j div 2)) :: uint32_t) \<noteq> of_nat 20"
    by (subst of_nat_32_inj) auto
  then show ?thesis
    unfolding l r by simp
qed

lemma pma_get_byte_set_tx_count:
  assumes "BTABLE h = BTABLE_ADDRESS" and "j < 2 ^ 16"
  shows "pma_get_byte (usb_set_ep_tx_count VCOM_TX_ENDP c h) VCOM_TX_ADDR j
         = pma_get_byte h VCOM_TX_ADDR j"
  using tx_count_ptr_not_tx_buffer [OF assms]
  by (simp add: pma_get_byte_def usb_set_ep_tx_count_def Let_def usb_ep_tx_count_ptr_def
        usb_btable_ptr_def)

lemma pma_get_byte_ep_store [simp]:
  "pma_get_byte (ep_store ep w h) off j = pma_get_byte h off j"
  by (simp add: pma_get_byte_def ep_store_def)

lemma pma_get_byte_set_tx_stat [simp]:
  "pma_get_byte (usb_set_ep_tx_stat ep st h) off j = pma_get_byte h off j"
  by (simp add: usb_set_ep_tx_stat_def Let_def)

lemma BTABLE_fold_set_byte [simp]:
  "BTABLE (fold (\<lambda>i. pma_set_byte off i (buf i)) xs h) = BTABLE h"
  by (induction xs arbitrary: h) (simp_all add: pma_set_byte_def Let_def)

lemma BTABLE_copy_to_pma [simp]: "BTABLE (usb_copy_to_pma buf len off h) = BTABLE h"
  by (simp add: usb_copy_to_pma_def)

lemma tx_count_set_get:
  "usb_get_ep_tx_count ep (usb_set_ep_tx_stat ep' st (usb_set_ep_tx_count ep c h)) = c"
  by (simp add: usb_get_ep_tx_count_def usb_set_ep_tx_stat_def usb_set_ep_tx_count_def Let_def
        ep_store_def usb_ep_tx_count_ptr_def usb_btable_ptr_def)

lemma tx_valid_mask: "USB_EP_STAT_TX_VALID AND NOT USB_EP_STAT_TX = 0"
  by (simp add: ep_bit_defs)

lemma tx_stat_after_set:
  "EP (usb_set_ep_tx_stat ep USB_EP_STAT_TX_VALID h) ep AND USB_EP_STAT_TX = USB_EP_STAT_TX_VALID"
  by (simp add: EP_usb_set_ep_tx_stat [OF tx_valid_mask] field_set [OF tx_valid_mask])

lemma tx_cap: "VCOM_TX_EPSIZE div 2 = (32 :: uint32_t)"
  by (simp add: VCOM_TX_EPSIZE_def)

lemma ucast_cap:
  assumes "(n :: uint32_t) \<le> 32"
  shows "unat (ucast n :: uint16_t) = unat n"
proof -
  have "unat n \<le> 32" using assms by (simp add: word_le_nat_alt)
  then have "take_bit 16 (unat n) = unat n"
    by (intro take_bit_nat_eq_self) simp
  then show ?thesis by (simp add: unsigned_ucast_eq)
qed

lemma usb_cdcacm_tx_accept:
  assumes "countTx s = 0" and "len \<noteq> 0"
  shows "usb_cdcacm_tx buf len s =
           (min len 32,
            s\<lparr>hw := usb_set_ep_tx_stat VCOM_TX_ENDP USB_EP_STAT_TX_VALID
                       (usb_set_ep_tx_count VCOM_TX_ENDP (ucast (min len 32))
                          (usb_copy_to_pma buf (ucast (min len 32)) VCOM_TX_ADDR (hw s))),
              countTx := min len 32\<rparr>)"
  using assms by (auto simp: usb_cdcacm_tx_def Let_def tx_cap min_def)

lemma pma_fold_set_byte_other:
  "(\<forall>i \<in> set xs. p \<noteq> pma_byte_ptr off i) \<Longrightarrow>
   pma (fold (\<lambda>i. pma_set_byte off i (buf i)) xs h) p = pma h p"
  by (induction xs arbitrary: h) (simp_all add: pma_set_byte_def Let_def)

lemma pma_copy_to_pma_other:
  "(\<forall>i < unat len. p \<noteq> pma_byte_ptr off i) \<Longrightarrow>
   pma (usb_copy_to_pma buf len off h) p = pma h p"
  unfolding usb_copy_to_pma_def by (rule pma_fold_set_byte_other) simp

lemma EP_fold_set_byte [simp]:
  "EP (fold (\<lambda>i. pma_set_byte off i (buf i)) xs h) = EP h"
  "rx_count_cfg (fold (\<lambda>i. pma_set_byte off i (buf i)) xs h) = rx_count_cfg h"
  by (induction xs arbitrary: h) (simp_all add: pma_set_byte_def Let_def)

lemma EP_copy_to_pma [simp]:
  "EP (usb_copy_to_pma buf len off h) = EP h"
  "rx_count_cfg (usb_copy_to_pma buf len off h) = rx_count_cfg h"
  by (simp_all add: usb_copy_to_pma_def)

lemma ucast_ucast_cap:
  assumes "(n :: uint32_t) \<le> 32"
  shows "(ucast (ucast n :: uint16_t) :: uint32_t) = n"
proof -
  have "unat (ucast (ucast n :: uint16_t) :: uint32_t) = unat (ucast n :: uint16_t)"
    by (rule unat_ucast_16_32)
  also have "\<dots> = unat n"
    by (rule ucast_cap [OF assms])
  finally show ?thesis
    by (rule word_unat_eq_iff [THEN iffD2])
qed

lemma hw_after_accept:
  fixes n :: uint32_t
  assumes n32: "n \<le> 32"
    and h'_def: "h' = usb_set_ep_tx_stat VCOM_TX_ENDP USB_EP_STAT_TX_VALID
                  (usb_set_ep_tx_count VCOM_TX_ENDP (ucast n)
                     (usb_copy_to_pma buf (ucast n) VCOM_TX_ADDR h))"
  shows "pma h' = (pma (usb_copy_to_pma buf (ucast n) VCOM_TX_ADDR h))
                    (usb_ep_tx_count_ptr VCOM_TX_ENDP h := n)"
    and "EP h' = (EP h)(VCOM_TX_ENDP :=
                    (EP h VCOM_TX_ENDP AND NOT USB_EP_STAT_TX) OR USB_EP_STAT_TX_VALID)"
    and "BTABLE h' = BTABLE h"
    and "rx_count_cfg h' = rx_count_cfg h"
proof -
  show "pma h' = (pma (usb_copy_to_pma buf (ucast n) VCOM_TX_ADDR h))
                    (usb_ep_tx_count_ptr VCOM_TX_ENDP h := n)"
    by (simp add: h'_def usb_set_ep_tx_stat_def usb_set_ep_tx_count_def Let_def ep_store_def
          usb_ep_tx_count_ptr_def usb_btable_ptr_def ucast_ucast_cap [OF n32])
  show "EP h' = (EP h)(VCOM_TX_ENDP :=
                    (EP h VCOM_TX_ENDP AND NOT USB_EP_STAT_TX) OR USB_EP_STAT_TX_VALID)"
    by (simp add: h'_def EP_usb_set_ep_tx_stat [OF tx_valid_mask] usb_set_ep_tx_count_def
          Let_def)
  show "BTABLE h' = BTABLE h"
    by (simp add: h'_def usb_set_ep_tx_stat_def usb_set_ep_tx_count_def Let_def ep_store_def)
  show "rx_count_cfg h' = rx_count_cfg h"
    by (simp add: h'_def usb_set_ep_tx_stat_def usb_set_ep_tx_count_def Let_def ep_store_def)
qed

text \<open>
  Claim C4, amended. With no transmission in flight and \<open>len > 0\<close>, \<open>usb_cdcacm_tx\<close>
  accepts exactly \<open>min len (VCOM_TX_EPSIZE / 2)\<close> bytes, at most 32: it returns that
  count, copies exactly that many bytes to the TX packet buffer, then records the count in
  the TX count of the descriptor table and in \<open>countTx\<close>, and marks the TX endpoint valid.
  Exactly that many: the first \<open>n\<close> bytes of the packet buffer become the caller's, every
  byte of it from \<open>n\<close> on and every other word of packet memory keep their values, the
  TX count slot apart. With \<open>len = 0\<close> it returns 0 and changes nothing.
\<close>

theorem tx_accepts_capped:
  assumes "countTx s = 0"
  shows "(len \<noteq> 0 \<longrightarrow>
           (let n = min len (VCOM_TX_EPSIZE div 2);
                s' = snd (usb_cdcacm_tx buf len s);
                txc = usb_ep_tx_count_ptr VCOM_TX_ENDP (hw s)
            in fst (usb_cdcacm_tx buf len s) = n
             \<and> n \<le> 32
             \<and> s' = s\<lparr>hw := hw s', countTx := n\<rparr>
             \<and> usb_get_ep_tx_count VCOM_TX_ENDP (hw s') = ucast n
             \<and> pma (hw s') = (pma (usb_copy_to_pma buf (ucast n) VCOM_TX_ADDR (hw s)))(txc := n)
             \<and> (\<forall>i < 2 ^ 16. pma_byte_ptr VCOM_TX_ADDR i \<noteq> txc \<longrightarrow>
                   pma_get_byte (hw s') VCOM_TX_ADDR i
                   = (if i < unat n then buf i else pma_get_byte (hw s) VCOM_TX_ADDR i))
             \<and> (\<forall>p. p \<noteq> txc \<longrightarrow> (\<forall>i < unat n. p \<noteq> pma_byte_ptr VCOM_TX_ADDR i) \<longrightarrow>
                   pma (hw s') p = pma (hw s) p)
             \<and> EP (hw s') = (EP (hw s))(VCOM_TX_ENDP :=
                   (EP (hw s) VCOM_TX_ENDP AND NOT USB_EP_STAT_TX) OR USB_EP_STAT_TX_VALID)
             \<and> EP (hw s') VCOM_TX_ENDP AND USB_EP_STAT_TX = USB_EP_STAT_TX_VALID
             \<and> BTABLE (hw s') = BTABLE (hw s)
             \<and> rx_count_cfg (hw s') = rx_count_cfg (hw s)))
       \<and> (len = 0 \<longrightarrow> usb_cdcacm_tx buf len s = (0, s))"
proof (intro conjI impI)
  assume "len = 0"
  with assms show "usb_cdcacm_tx buf len s = (0, s)"
    by (simp add: usb_cdcacm_tx_def Let_def)
next
  assume len: "len \<noteq> 0"
  define n where "n = min len 32"
  define h1 where "h1 = usb_copy_to_pma buf (ucast n) VCOM_TX_ADDR (hw s)"
  define h' where "h' = usb_set_ep_tx_stat VCOM_TX_ENDP USB_EP_STAT_TX_VALID
                          (usb_set_ep_tx_count VCOM_TX_ENDP (ucast n) h1)"
  define txc where "txc = usb_ep_tx_count_ptr VCOM_TX_ENDP (hw s)"
  have n32: "n \<le> 32" by (simp add: n_def)
  have un: "unat (ucast n :: uint16_t) = unat n" by (rule ucast_cap [OF n32])
  have eq: "usb_cdcacm_tx buf len s = (n, s\<lparr>hw := h', countTx := n\<rparr>)"
    unfolding n_def h1_def h'_def by (rule usb_cdcacm_tx_accept [OF assms len])
  note after = hw_after_accept [OF n32 h'_def [unfolded h1_def], folded txc_def]
  have cnt: "usb_get_ep_tx_count VCOM_TX_ENDP h' = ucast n"
    unfolding h'_def by (rule tx_count_set_get)
  have words: "pma h' p = pma (hw s) p"
    if "p \<noteq> txc" and "\<forall>i < unat n. p \<noteq> pma_byte_ptr VCOM_TX_ADDR i" for p
  proof -
    have "pma h' p = pma h1 p" using that(1) by (simp add: after(1) h1_def)
    also have "\<dots> = pma (hw s) p"
      unfolding h1_def using that(2) by (intro pma_copy_to_pma_other) (simp add: un)
    finally show ?thesis .
  qed
  have bytes: "pma_get_byte h' VCOM_TX_ADDR i
               = (if i < unat n then buf i else pma_get_byte (hw s) VCOM_TX_ADDR i)"
    if i: "i < 2 ^ 16" and "pma_byte_ptr VCOM_TX_ADDR i \<noteq> txc" for i
  proof -
    have "pma_get_byte h' VCOM_TX_ADDR i = pma_get_byte h1 VCOM_TX_ADDR i"
      using that(2) by (simp add: pma_get_byte_def after(1) h1_def)
    also have "\<dots> = (if i < unat n then buf i else pma_get_byte (hw s) VCOM_TX_ADDR i)"
      unfolding h1_def by (simp add: pma_get_byte_copy [OF i] un)
    finally show ?thesis .
  qed
  have valid: "EP h' VCOM_TX_ENDP AND USB_EP_STAT_TX = USB_EP_STAT_TX_VALID"
    unfolding h'_def by (rule tx_stat_after_set)
  show "let n = min len (VCOM_TX_EPSIZE div 2);
            s' = snd (usb_cdcacm_tx buf len s);
            txc = usb_ep_tx_count_ptr VCOM_TX_ENDP (hw s)
        in fst (usb_cdcacm_tx buf len s) = n
         \<and> n \<le> 32
         \<and> s' = s\<lparr>hw := hw s', countTx := n\<rparr>
         \<and> usb_get_ep_tx_count VCOM_TX_ENDP (hw s') = ucast n
         \<and> pma (hw s') = (pma (usb_copy_to_pma buf (ucast n) VCOM_TX_ADDR (hw s)))(txc := n)
         \<and> (\<forall>i < 2 ^ 16. pma_byte_ptr VCOM_TX_ADDR i \<noteq> txc \<longrightarrow>
               pma_get_byte (hw s') VCOM_TX_ADDR i
               = (if i < unat n then buf i else pma_get_byte (hw s) VCOM_TX_ADDR i))
         \<and> (\<forall>p. p \<noteq> txc \<longrightarrow> (\<forall>i < unat n. p \<noteq> pma_byte_ptr VCOM_TX_ADDR i) \<longrightarrow>
               pma (hw s') p = pma (hw s) p)
         \<and> EP (hw s') = (EP (hw s))(VCOM_TX_ENDP :=
               (EP (hw s) VCOM_TX_ENDP AND NOT USB_EP_STAT_TX) OR USB_EP_STAT_TX_VALID)
         \<and> EP (hw s') VCOM_TX_ENDP AND USB_EP_STAT_TX = USB_EP_STAT_TX_VALID
         \<and> BTABLE (hw s') = BTABLE (hw s)
         \<and> rx_count_cfg (hw s') = rx_count_cfg (hw s)"
    unfolding Let_def tx_cap n_def [symmetric] txc_def [symmetric] eq
    using n32 cnt words bytes valid after
    by (simp add: h1_def)
qed


lemma hw_s_busy:
  "hw s_busy = usb_set_ep_tx_stat VCOM_TX_ENDP USB_EP_STAT_TX_VALID
                 (usb_set_ep_tx_count VCOM_TX_ENDP 5
                    (usb_copy_to_pma buf0 5 VCOM_TX_ADDR hw0))"
proof -
  have "countTx (boot_state hw0 stack0) = 0" by (simp add: boot_state_def)
  then show ?thesis
    unfolding s_busy_def
    by (subst usb_cdcacm_tx_accept) (simp_all add: boot_state_def)
qed

text \<open>
  Claim C4, as stated: for every buffer and length with no transmission in flight,
  \<open>usb_cdcacm_tx\<close> records the accepted count \<open>min len (VCOM_TX_EPSIZE / 2)\<close> in the TX
  count of the descriptor table. It fails for \<open>len = 0\<close>: the body is guarded by
  \<open>if (len)\<close>, and after a completed transmission of five bytes the TX count still reads 5.
\<close>

theorem tx_records_count_counterexample:
  "countTx (vcomDataTxCb s_busy) = 0
   \<and> fst (usb_cdcacm_tx buf0 0 (vcomDataTxCb s_busy)) = min 0 (VCOM_TX_EPSIZE div 2)
   \<and> usb_get_ep_tx_count VCOM_TX_ENDP (hw (snd (usb_cdcacm_tx buf0 0 (vcomDataTxCb s_busy)))) = 5
   \<and> (5 :: uint16_t) \<noteq> ucast (min (0 :: uint32_t) (VCOM_TX_EPSIZE div 2))"
  by (simp add: usb_cdcacm_tx_def vcomDataTxCb_def Let_def hw_s_busy tx_count_set_get tx_cap)

lemma pma_base_not_tx_buffer:
  assumes "j < 2 ^ 16"
  shows "USB_PMA_BASE \<noteq> pma_byte_ptr VCOM_TX_ADDR j"
proof -
  have r: "pma_byte_ptr VCOM_TX_ADDR j = USB_PMA_BASE + of_nat (384 + 4 * (j div 2))"
    by (simp add: pma_byte_ptr_of_nat VCOM_TX_ADDR_def)
  have "384 + 4 * (j div 2) < 2 ^ 32"
    using assms by auto
  then have "(of_nat (384 + 4 * (j div 2)) :: uint32_t) \<noteq> of_nat 0"
    by (subst of_nat_32_inj) auto
  then show ?thesis
    unfolding r by simp
qed

theorem tx_accepts_capped_witness:
  "countTx (boot_state hw0 stack0) = 0
   \<and> (40 :: uint32_t) \<noteq> 0
   \<and> fst (usb_cdcacm_tx buf0 40 (boot_state hw0 stack0)) = 32
   \<and> countTx (snd (usb_cdcacm_tx buf0 40 (boot_state hw0 stack0))) = 32
   \<and> usb_get_ep_tx_count VCOM_TX_ENDP (hw (snd (usb_cdcacm_tx buf0 40 (boot_state hw0 stack0))))
       = 32
   \<and> pma_byte_ptr VCOM_TX_ADDR 31 \<noteq> usb_ep_tx_count_ptr VCOM_TX_ENDP hw0
   \<and> pma_get_byte (hw (snd (usb_cdcacm_tx buf0 40 (boot_state hw0 stack0)))) VCOM_TX_ADDR 31
       = buf0 31
   \<and> pma_byte_ptr VCOM_TX_ADDR 32 \<noteq> usb_ep_tx_count_ptr VCOM_TX_ENDP hw0
   \<and> pma_get_byte (hw (snd (usb_cdcacm_tx buf0 40 (boot_state hw0 stack0)))) VCOM_TX_ADDR 32
       = pma_get_byte hw0 VCOM_TX_ADDR 32
   \<and> USB_PMA_BASE \<noteq> usb_ep_tx_count_ptr VCOM_TX_ENDP hw0
   \<and> USB_PMA_BASE \<notin> pma_byte_ptr VCOM_TX_ADDR ` {0..<32}
   \<and> pma (hw (snd (usb_cdcacm_tx buf0 40 (boot_state hw0 stack0)))) USB_PMA_BASE
       = pma hw0 USB_PMA_BASE
   \<and> usb_cdcacm_tx buf0 0 (boot_state hw0 stack0) = (0, boot_state hw0 stack0)"
proof -
  let ?s = "boot_state hw0 stack0"
  let ?s' = "snd (usb_cdcacm_tx buf0 40 ?s)"
  let ?txc = "usb_ep_tx_count_ptr VCOM_TX_ENDP hw0"
  have a: "countTx ?s = 0" by simp
  have b: "BTABLE hw0 = BTABLE_ADDRESS"
    by (simp add: hw0_def BTABLE_ADDRESS_def)
  have m: "min (40 :: uint32_t) 32 = 32" by simp
  have p31: "pma_byte_ptr VCOM_TX_ADDR 31 \<noteq> ?txc"
    by (rule tx_count_ptr_not_tx_buffer [OF b]) simp
  have p32: "pma_byte_ptr VCOM_TX_ADDR 32 \<noteq> ?txc"
    by (rule tx_count_ptr_not_tx_buffer [OF b]) simp
  have q: "USB_PMA_BASE \<noteq> ?txc"
    by (simp add: usb_ep_tx_count_ptr_def usb_btable_ptr_def usb_pma_ptr_def hw0_def
          VCOM_TX_ENDP_def)
  have q': "\<forall>i < 32. USB_PMA_BASE \<noteq> pma_byte_ptr VCOM_TX_ADDR i"
    by (auto intro!: pma_base_not_tx_buffer)
  have ne: "(40 :: uint32_t) \<noteq> 0" by simp
  note t = tx_accepts_capped [OF a, of 40 buf0, THEN conjunct1, THEN mp, OF ne,
      unfolded Let_def tx_cap m]
  from t have f: "fst (usb_cdcacm_tx buf0 40 ?s) = 32" by blast
  from t have e: "?s' = ?s\<lparr>hw := hw ?s', countTx := 32\<rparr>" by blast
  have c: "countTx ?s' = 32" by (subst e) simp
  from t have g: "usb_get_ep_tx_count VCOM_TX_ENDP (hw ?s') = ucast (32 :: uint32_t)" by blast
  from t have bytes: "\<forall>i < 2 ^ 16. pma_byte_ptr VCOM_TX_ADDR i
             \<noteq> usb_ep_tx_count_ptr VCOM_TX_ENDP (hw ?s) \<longrightarrow>
             pma_get_byte (hw ?s') VCOM_TX_ADDR i
             = (if i < unat (32 :: uint32_t) then buf0 i
                else pma_get_byte (hw ?s) VCOM_TX_ADDR i)"
    by blast
  from t have words: "\<forall>p. p \<noteq> usb_ep_tx_count_ptr VCOM_TX_ENDP (hw ?s) \<longrightarrow>
             (\<forall>i < unat (32 :: uint32_t). p \<noteq> pma_byte_ptr VCOM_TX_ADDR i) \<longrightarrow>
             pma (hw ?s') p = pma (hw ?s) p"
    by blast
  have b31: "pma_get_byte (hw ?s') VCOM_TX_ADDR 31 = buf0 31"
    using bytes [rule_format, of 31] p31 by simp
  have b32: "pma_get_byte (hw ?s') VCOM_TX_ADDR 32 = pma_get_byte hw0 VCOM_TX_ADDR 32"
    using bytes [rule_format, of 32] p32 by simp
  have w: "pma (hw ?s') USB_PMA_BASE = pma hw0 USB_PMA_BASE"
    using words [rule_format, of USB_PMA_BASE] q q' by simp
  have z: "usb_cdcacm_tx buf0 0 ?s = (0, ?s)"
    using tx_accepts_capped [OF a, of 0 buf0] by simp
  have q'': "USB_PMA_BASE \<notin> pma_byte_ptr VCOM_TX_ADDR ` {0..<32}"
    using q' by auto
  show ?thesis
    using a f c g p31 b31 p32 b32 q q'' w z by simp
qed


section \<open>Receive callback\<close>

lemma rx_buflen: "unat VCOM_RX_BUFLEN = 192" "unat VCOM_RX_EPSIZE = 64"
  by (simp_all add: VCOM_RX_BUFLEN_def VCOM_RX_EPSIZE_def)

lemma usb_copy_from_pma_ep_store [simp]:
  "usb_copy_from_pma len off (ep_store ep w h) = usb_copy_from_pma len off h"
  by (simp add: usb_copy_from_pma_def)

lemma usb_copy_from_pma_rx_stat [simp]:
  "usb_copy_from_pma len off (usb_set_ep_rx_stat ep st h) = usb_copy_from_pma len off h"
  by (simp add: usb_set_ep_rx_stat_def Let_def)

lemma length_usb_copy_from_pma [simp]: "length (usb_copy_from_pma len off h) = unat len"
  by (simp add: usb_copy_from_pma_def)

lemma usb_get_ep_rx_count_le: "usb_get_ep_rx_count ep h \<le> 0x3FF"
  unfolding usb_get_ep_rx_count_def by (rule word_and_le1)

lemma vcomDataRxCb_eq:
  "vcomDataRxCb s =
     (let k = usb_get_ep_rx_count VCOM_RX_ENDP (hw s);
          d = usb_copy_from_pma k VCOM_RX_ADDR (hw s)
      in if unat VCOM_RX_BUFLEN < unat k then Inl OutOfBounds
         else Inr (s\<lparr>newBytes := ucast k,
                     hw := usb_set_ep_rx_stat VCOM_RX_ENDP USB_EP_STAT_RX_NAK (hw s),
                     vcomBufferRx := (\<lambda>i. if i < unat k then d ! i else vcomBufferRx s i)\<rparr>))"
  by (simp add: vcomDataRxCb_def store_vcomBufferRx_def Let_def cong: if_cong)

lemma rx_nak_mask: "USB_EP_STAT_RX_NAK AND NOT USB_EP_STAT_RX = 0"
  by (simp add: ep_bit_defs)

lemma rx_valid_mask: "USB_EP_STAT_RX_VALID AND NOT USB_EP_STAT_RX = 0"
  by (simp add: ep_bit_defs)

lemma rx_stat_after_nak:
  "EP (usb_set_ep_rx_stat ep USB_EP_STAT_RX_NAK h) ep AND USB_EP_STAT_RX = USB_EP_STAT_RX_NAK"
  by (simp add: EP_usb_set_ep_rx_stat [OF rx_nak_mask] field_set [OF rx_nak_mask])

lemma rx_stat_after_valid:
  "EP (usb_set_ep_rx_stat ep USB_EP_STAT_RX_VALID h) ep AND USB_EP_STAT_RX
   = USB_EP_STAT_RX_VALID"
  by (simp add: EP_usb_set_ep_rx_stat [OF rx_valid_mask] field_set [OF rx_valid_mask])

lemma vcomDataRxCb_nak:
  "vcomDataRxCb s = Inr s' \<Longrightarrow>
   EP (hw s') VCOM_RX_ENDP AND USB_EP_STAT_RX = USB_EP_STAT_RX_NAK"
  by (auto simp: vcomDataRxCb_eq Let_def rx_stat_after_nak split: if_splits)

text \<open>
  Claim C9. If the receive count that the peripheral reports is at most \<open>VCOM_RX_EPSIZE\<close>
  (64), \<open>vcomDataRxCb\<close> stores only within the 192 bytes of \<open>vcomBufferRx\<close>. The mask in
  \<open>usb_get_ep_rx_count\<close> bounds the count by 1023 only, which is more than the buffer
  holds: with a count above 192 the callback stores beyond the buffer. Its memory safety
  rests on the precondition, not on the mask.
\<close>

theorem rx_callback_bounds:
  "(usb_get_ep_rx_count VCOM_RX_ENDP (hw s) \<le> ucast VCOM_RX_EPSIZE \<longrightarrow>
      (\<exists>s'. vcomDataRxCb s = Inr s'
         \<and> unat (newBytes s') \<le> unat VCOM_RX_EPSIZE
         \<and> unat (newBytes s') \<le> unat VCOM_RX_BUFLEN
         \<and> (\<forall>i. unat (newBytes s') \<le> i \<longrightarrow> vcomBufferRx s' i = vcomBufferRx s i)))
   \<and> usb_get_ep_rx_count ep h \<le> 0x3FF
   \<and> unat VCOM_RX_BUFLEN < unat (0x3FF :: uint16_t)
   \<and> (unat VCOM_RX_BUFLEN < unat (usb_get_ep_rx_count VCOM_RX_ENDP (hw s)) \<longrightarrow>
        vcomDataRxCb s = Inl OutOfBounds)
   \<and> usb_get_ep_rx_count VCOM_RX_ENDP (hw s_overrun) = 0x3FF
   \<and> vcomDataRxCb s_overrun = Inl OutOfBounds"
proof -
  have over: "usb_get_ep_rx_count VCOM_RX_ENDP (hw s_overrun) = 0x3FF"
    by (simp add: s_overrun_def boot_state_def usb_get_ep_rx_count_def usb_ep_rx_count_ptr_def
          usb_btable_ptr_def hw0_def)
  have fault: "vcomDataRxCb s = Inl OutOfBounds"
    if "unat VCOM_RX_BUFLEN < unat (usb_get_ep_rx_count VCOM_RX_ENDP (hw s))" for s
    using that by (simp add: vcomDataRxCb_eq Let_def)
  have ok: "\<exists>s'. vcomDataRxCb s = Inr s'
         \<and> unat (newBytes s') \<le> unat VCOM_RX_EPSIZE
         \<and> unat (newBytes s') \<le> unat VCOM_RX_BUFLEN
         \<and> (\<forall>i. unat (newBytes s') \<le> i \<longrightarrow> vcomBufferRx s' i = vcomBufferRx s i)"
    if le: "usb_get_ep_rx_count VCOM_RX_ENDP (hw s) \<le> ucast VCOM_RX_EPSIZE"
  proof -
    have "unat (usb_get_ep_rx_count VCOM_RX_ENDP (hw s)) \<le> 64"
      using le by (simp add: word_le_nat_alt VCOM_RX_EPSIZE_def)
    then show ?thesis
      by (simp add: vcomDataRxCb_eq Let_def rx_buflen unat_ucast_16_32)
  qed
  show ?thesis
    using ok fault [of s] fault [of s_overrun] over
    by (simp add: usb_get_ep_rx_count_le rx_buflen)
qed

theorem rx_callback_bounds_witness:
  "usb_get_ep_rx_count VCOM_RX_ENDP (hw (boot_state hw_pkt stack0)) \<le> ucast VCOM_RX_EPSIZE
   \<and> (\<exists>s'. vcomDataRxCb (boot_state hw_pkt stack0) = Inr s' \<and> unat (newBytes s') \<le> 64
         \<and> vcomBufferRx s' 191 = vcomBufferRx (boot_state hw_pkt stack0) 191)
   \<and> unat VCOM_RX_BUFLEN < unat (usb_get_ep_rx_count VCOM_RX_ENDP (hw s_overrun))
   \<and> vcomDataRxCb s_overrun = Inl OutOfBounds"
proof -
  have k: "usb_get_ep_rx_count VCOM_RX_ENDP (hw (boot_state hw_pkt stack0)) = 2"
    by (simp add: boot_state_def hw_pkt_def usb_get_ep_rx_count_def usb_ep_rx_count_ptr_def
          usb_btable_ptr_def hw0_def pma_byte_ptr_def usb_pma_ptr_def VCOM_RX_ENDP_def
          VCOM_RX_ADDR_def USB_PMA_BASE_def)
  then have a: "usb_get_ep_rx_count VCOM_RX_ENDP (hw (boot_state hw_pkt stack0))
             \<le> ucast VCOM_RX_EPSIZE"
    by (simp add: VCOM_RX_EPSIZE_def)
  have "2 \<le> (191 :: nat)" by simp
  with k rx_callback_bounds [of "boot_state hw_pkt stack0" 0 hw0] a show ?thesis
    by (auto simp: rx_buflen)
qed

section \<open>Receive calls\<close>

lemma usb_cdcacm_rx_cases:
  assumes "usb_cdcacm_rx len s = Inr (buf, n, s')"
  shows "n = min len (newBytes s)"
    and "newBytes s' = newBytes s - n"
    and "countTx s' = countTx s"
    and "newBytes s' = 0 \<Longrightarrow>
           hw s' = usb_set_ep_rx_stat VCOM_RX_ENDP USB_EP_STAT_RX_VALID
                     (usb_set_ep_rx_count VCOM_RX_ENDP (ucast VCOM_RX_EPSIZE) (hw s))
           \<and> rx_offset s' = 0"
    and "newBytes s' \<noteq> 0 \<Longrightarrow> hw s' = hw s \<and> rx_offset s' = rx_offset s + n"
    and "\<forall>i < unat n. rx_index s i < unat VCOM_RX_BUFLEN"
    and "buf = map (\<lambda>i. vcomBufferRx s (rx_index s i)) [0..<unat n]"
    and "vcomBufferRx s' = vcomBufferRx s"
  using assms
  by (auto simp: usb_cdcacm_rx_def Let_def min_def list_all_iff split: if_splits)

lemma rx_count_cfg_rx_stat [simp]:
  "rx_count_cfg (usb_set_ep_rx_stat ep st h) = rx_count_cfg h"
  by (simp add: usb_set_ep_rx_stat_def Let_def ep_store_def)




lemma rx_index_eq: "i + unat (rx_offset s) < 2 ^ 32 \<Longrightarrow> rx_index s i = i + unat (rx_offset s)"
  by (simp add: rx_index_def unat_word_ariths unat_of_nat mod_add_left_eq)

lemma unat_min: "unat (min a b) = min (unat a) (unat b)" for a b :: uint32_t
  by (simp add: min_def word_le_nat_alt)

lemma usb_cdcacm_rx_ok:
  assumes "unat (rx_offset s) + unat (newBytes s) \<le> unat VCOM_RX_BUFLEN"
  shows "\<exists>buf s'. usb_cdcacm_rx len s = Inr (buf, min len (newBytes s), s')"
proof -
  have "rx_index s i < unat VCOM_RX_BUFLEN" if "i < unat (min len (newBytes s))" for i
  proof -
    from that have i: "i < unat (newBytes s)" by (simp add: unat_min)
    with assms have "i + unat (rx_offset s) < 2 ^ 32" by (simp add: rx_buflen)
    from rx_index_eq [OF this] i assms show ?thesis by simp
  qed
  then have "list_all (\<lambda>i. rx_index s i < unat VCOM_RX_BUFLEN) [0..<unat (min len (newBytes s))]"
    by (simp add: list_all_iff)
  moreover have "min len (newBytes s) = (if len > newBytes s then newBytes s else len)"
    by (auto simp: min_def)
  ultimately show ?thesis
    by (simp add: usb_cdcacm_rx_def Let_def)
qed

lemma vcomDataRxCb_fields:
  assumes "vcomDataRxCb s = Inr s'"
  shows "newBytes s' = ucast (usb_get_ep_rx_count VCOM_RX_ENDP (hw s))"
    and "rx_offset s' = rx_offset s"
    and "\<forall>i < unat (usb_get_ep_rx_count VCOM_RX_ENDP (hw s)).
           vcomBufferRx s' i
           = usb_copy_from_pma (usb_get_ep_rx_count VCOM_RX_ENDP (hw s)) VCOM_RX_ADDR (hw s) ! i"
  using assms by (auto simp: vcomDataRxCb_eq Let_def split: if_splits)

lemma vcomDataTxCb_fields [simp]:
  "newBytes (vcomDataTxCb s) = newBytes s" "rx_offset (vcomDataTxCb s) = rx_offset s"
  by (simp_all add: vcomDataTxCb_def)

lemma rx_call_sum:
  assumes call: "usb_cdcacm_rx len s = Inr (buf, n, s')"
    and inv: "unat (rx_offset s) + unat (newBytes s) \<le> unat VCOM_RX_BUFLEN"
    and nz: "newBytes s' \<noteq> 0"
  shows "unat (rx_offset s') + unat (newBytes s') = unat (rx_offset s) + unat (newBytes s)"
proof -
  note c = usb_cdcacm_rx_cases [OF call]
  have n: "unat n \<le> unat (newBytes s)"
    using c(1) by (simp add: unat_min)
  then have "n \<le> newBytes s" by (simp add: word_le_nat_alt)
  then have sub: "unat (newBytes s - n) = unat (newBytes s) - unat n"
    by (rule unat_sub)
  have "unat (rx_offset s) + unat n < 2 ^ LENGTH(32)"
    using n inv by (simp add: rx_buflen)
  then have add: "unat (rx_offset s + n) = unat (rx_offset s) + unat n"
    by (rule unat_add_lem [THEN iffD1])
  show ?thesis
    using c(2) c(5) [OF nz] sub add n by simp
qed

lemma disciplined_inv:
  "disciplined lib s \<Longrightarrow>
   unat (rx_offset s) + unat (newBytes s) \<le> unat VCOM_RX_EPSIZE
   \<and> (newBytes s = 0 \<longrightarrow> rx_offset s = 0)"
proof (induction rule: disciplined.induct)
  case (d_boot h k)
  then show ?case by simp
next
  case (d_reset s)
  then show ?case by simp
next
  case (d_complete s h' s')
  note f = vcomDataRxCb_fields [OF d_complete.hyps(4)]
  have "unat (usb_get_ep_rx_count VCOM_RX_ENDP h') \<le> 64"
    using d_complete.hyps(3) by (simp add: word_le_nat_alt VCOM_RX_EPSIZE_def)
  with f(1,2) d_complete.IH d_complete.hyps(2) show ?case
    by (simp add: unat_ucast_16_32 rx_buflen)
next
  case (d_call s len buf n s')
  note c = usb_cdcacm_rx_cases [OF d_call.hyps(2)]
  show ?case
  proof (cases "newBytes s' = 0")
    case True
    with c(4) show ?thesis by simp
  next
    case False
    have "unat (rx_offset s) + unat (newBytes s) \<le> unat VCOM_RX_BUFLEN"
      using d_call.IH by (simp add: rx_buflen)
    from rx_call_sum [OF d_call.hyps(2) this False] d_call.IH False show ?thesis by simp
  qed
next
  case (d_tx s buf len)
  then show ?case by simp
next
  case (d_txcb s)
  then show ?case by simp
next
  case (d_setup s request)
  then show ?case by simp
qed

text \<open>
  Claim C10. In every state reached from the initial state by bus resets, by completions
  that deliver at most \<open>VCOM_RX_EPSIZE\<close> bytes and come only while \<open>newBytes\<close> is 0, and by
  \<open>usb_cdcacm_rx\<close> calls (transmissions and line-state requests in between change
  nothing of it), \<open>rx_offset + newBytes \<le> VCOM_RX_EPSIZE\<close> holds; so every call
  of \<open>usb_cdcacm_rx\<close> returns, and every index \<open>i + rx_offset\<close> that it reads lies within
  \<open>vcomBufferRx\<close> and before the end of the delivered data.
\<close>

theorem rx_cursor_in_bounds:
  assumes "disciplined lib s"
  shows "unat (rx_offset s) + unat (newBytes s) \<le> unat VCOM_RX_EPSIZE
       \<and> (\<forall>len. \<exists>buf n s'. usb_cdcacm_rx len s = Inr (buf, n, s')
            \<and> (\<forall>i < unat n. rx_index s i = i + unat (rx_offset s)
                  \<and> rx_index s i < unat (rx_offset s) + unat (newBytes s)
                  \<and> rx_index s i < unat VCOM_RX_BUFLEN))"
proof (intro conjI allI)
  note inv = disciplined_inv [OF assms]
  from inv show "unat (rx_offset s) + unat (newBytes s) \<le> unat VCOM_RX_EPSIZE" by simp
  fix len
  have b: "unat (rx_offset s) + unat (newBytes s) \<le> unat VCOM_RX_BUFLEN"
    using inv by (simp add: rx_buflen)
  from usb_cdcacm_rx_ok [OF b, of len] obtain buf s'
    where call: "usb_cdcacm_rx len s = Inr (buf, min len (newBytes s), s')" by blast
  have "rx_index s i = i + unat (rx_offset s)
        \<and> rx_index s i < unat (rx_offset s) + unat (newBytes s)
        \<and> rx_index s i < unat VCOM_RX_BUFLEN"
    if "i < unat (min len (newBytes s))" for i
  proof -
    from that have i: "i < unat (newBytes s)" by (simp add: unat_min)
    with b have "i + unat (rx_offset s) < 2 ^ 32" by (simp add: rx_buflen)
    from rx_index_eq [OF this] i b show ?thesis by simp
  qed
  with call show "\<exists>buf n s'. usb_cdcacm_rx len s = Inr (buf, n, s')
            \<and> (\<forall>i < unat n. rx_index s i = i + unat (rx_offset s)
                  \<and> rx_index s i < unat (rx_offset s) + unat (newBytes s)
                  \<and> rx_index s i < unat VCOM_RX_BUFLEN)"
    by blast
qed

section \<open>Round trip through the ring buffer\<close>

lemma unat_of_nat_small: "n \<le> 192 \<Longrightarrow> unat (of_nat n :: uint32_t) = n"
  by (simp add: unat_of_nat)

lemma rx_holds_len: "rx_holds d s \<Longrightarrow> length d \<le> 192"
  by (simp add: rx_holds_def rx_buflen)

lemma rx_holds_call:
  assumes h: "rx_holds d s"
  shows "\<exists>s'. usb_cdcacm_rx len s
                = Inr (take (min (unat len) (length d)) d, of_nat (min (unat len) (length d)), s')
              \<and> newBytes s' = of_nat (length d - min (unat len) (length d))
              \<and> rx_holds (drop (min (unat len) (length d)) d) s'"
proof -
  define n where "n = min (unat len) (length d)"
  have len192: "length d \<le> 192" by (rule rx_holds_len [OF h])
  have nb: "newBytes s = of_nat (length d)"
    and bound: "unat (rx_offset s) + length d \<le> 192"
    and content: "\<And>i. i < length d \<Longrightarrow> vcomBufferRx s (i + unat (rx_offset s)) = d ! i"
    using h by (simp_all add: rx_holds_def rx_buflen)
  have unb: "unat (newBytes s) = length d"
    using len192 by (simp add: nb unat_of_nat_small)
  have nle: "n \<le> length d" by (simp add: n_def)
  have inv: "unat (rx_offset s) + unat (newBytes s) \<le> unat VCOM_RX_BUFLEN"
    using bound by (simp add: unb rx_buflen)
  from usb_cdcacm_rx_ok [OF inv, of len] obtain buf s'
    where call: "usb_cdcacm_rx len s = Inr (buf, min len (newBytes s), s')" by blast
  note c = usb_cdcacm_rx_cases [OF call]
  have un: "unat (min len (newBytes s)) = n"
    by (simp add: unat_min unb n_def)
  then have mn: "min len (newBytes s) = of_nat n"
    by (simp flip: un)
  have idx: "rx_index s i = i + unat (rx_offset s)" if "i < n" for i
    using that nle bound by (intro rx_index_eq) simp
  have buf: "buf = take n d"
  proof (rule nth_equalityI)
    show "length buf = length (take n d)"
      using c(7) un nle by simp
    fix i assume "i < length buf"
    then have i: "i < n" using c(7) un by simp
    then show "buf ! i = take n d ! i"
      using c(7) un idx [OF i] content [of i] nle by simp
  qed
  have nb': "newBytes s' = of_nat (length d - n)"
  proof -
    have "newBytes s' = newBytes s - of_nat n"
      using c(2) by (simp only: mn)
    then show ?thesis
      using nle by (simp add: nb of_nat_diff)
  qed
  have unb': "unat (newBytes s') = length d - n"
    using len192 by (simp add: nb' unat_of_nat_small)
  have holds: "rx_holds (drop n d) s'"
  proof (cases "newBytes s' = 0")
    case True
    with unb' have "length d - n = 0" by simp
    with c(4) [OF True] True show ?thesis
      by (simp add: rx_holds_def)
  next
    case False
    have off: "unat (rx_offset s') = unat (rx_offset s) + n"
    proof -
      have "unat (rx_offset s) + unat (of_nat n :: uint32_t) < 2 ^ LENGTH(32)"
        using nle len192 bound by (simp add: unat_of_nat_small)
      then have "unat (rx_offset s + of_nat n) = unat (rx_offset s) + unat (of_nat n :: uint32_t)"
        by (rule unat_add_lem [THEN iffD1])
      then show ?thesis
        using c(5) [OF False] nle len192 by (simp add: mn unat_of_nat_small)
    qed
    have "vcomBufferRx s' (i + unat (rx_offset s')) = drop n d ! i" if "i < length d - n" for i
    proof -
      have "vcomBufferRx s' (i + unat (rx_offset s')) = vcomBufferRx s ((n + i) + unat (rx_offset s))"
        by (simp add: c(8) off ac_simps)
      also have "\<dots> = d ! (n + i)"
        using that by (intro content) simp
      finally show ?thesis using nle by simp
    qed
    then show ?thesis
      using nb' off bound nle by (simp add: rx_holds_def rx_buflen)
  qed
  show ?thesis
    using call buf nb' holds unfolding mn n_def [symmetric] by blast
qed

lemma rx_holds_calls:
  "rx_holds d s \<Longrightarrow>
   \<exists>s2. rx_calls lens s = Inr (rx_expected d lens, s2)
        \<and> rx_holds (drop (sum_list (map unat lens)) d) s2"
proof (induction lens arbitrary: d s)
  case Nil
  then show ?case by simp
next
  case (Cons len lens)
  define n where "n = min (unat len) (length d)"
  from rx_holds_call [OF Cons.prems, of len] obtain s'
    where call: "usb_cdcacm_rx len s = Inr (take n d, of_nat n, s')"
      and nb: "newBytes s' = of_nat (length d - n)"
      and h': "rx_holds (drop n d) s'"
    unfolding n_def by blast
  from Cons.IH [OF h'] obtain s2
    where rest: "rx_calls lens s' = Inr (rx_expected (drop n d) lens, s2)"
      and h2: "rx_holds (drop (sum_list (map unat lens)) (drop n d)) s2"
    by blast
  have "drop n d = drop (unat len) d"
    by (simp add: n_def min_def)
  then have "drop (sum_list (map unat lens)) (drop n d)
             = drop (sum_list (map unat (len # lens))) d"
    by (simp add: add.commute)
  with h2 call nb rest show ?case
    by (simp add: Let_def n_def)
qed

lemma rx_expected_concat:
  "concat (map fst (rx_expected d lens)) = take (sum_list (map unat lens)) d"
proof (induction lens arbitrary: d)
  case Nil
  then show ?case by simp
next
  case (Cons len lens)
  have "take (min (unat len) (length d)) d = take (unat len) d"
       "drop (min (unat len) (length d)) d = drop (unat len) d"
    by (simp_all add: min_def)
  then show ?case
    by (simp add: Let_def Cons.IH take_add)
qed

lemma vcomDataRxCb_holds:
  assumes off: "rx_offset s = 0"
    and pkt: "rx_packet_received pkt (hw s)"
    and len: "length pkt \<le> unat VCOM_RX_EPSIZE"
  shows "\<exists>s1. vcomDataRxCb s = Inr s1 \<and> rx_holds pkt s1"
proof -
  define k where "k = usb_get_ep_rx_count VCOM_RX_ENDP (hw s)"
  have k: "k = of_nat (length pkt)"
    and d: "usb_copy_from_pma k VCOM_RX_ADDR (hw s) = pkt"
    using pkt by (simp_all add: rx_packet_received_def k_def)
  have l64: "length pkt \<le> 64" using len by (simp add: rx_buflen)
  then have uk: "unat k = length pkt"
    by (simp add: k unat_of_nat)
  have "unat (ucast k :: uint32_t) = unat (of_nat (length pkt) :: uint32_t)"
    using l64 by (simp add: unat_ucast_16_32 uk unat_of_nat)
  then have uc: "(ucast k :: uint32_t) = of_nat (length pkt)"
    by (rule word_unat_eq_iff [THEN iffD2])
  have "\<not> unat VCOM_RX_BUFLEN < unat k"
    using l64 by (simp add: uk rx_buflen)
  then show ?thesis
    using off d l64 uc uk
    by (simp add: vcomDataRxCb_eq Let_def k_def [symmetric] rx_holds_def rx_buflen)
qed

text \<open>
  Where no bus reset falls into a drain, the round trip holds: for a packet of at most
  \<open>VCOM_RX_EPSIZE\<close> bytes that arrives while \<open>newBytes\<close> is 0, in a state reached under
  the receive discipline, every sequence of \<open>usb_cdcacm_rx\<close> calls hands out what the
  specification expects.
\<close>

lemma rx_round_trip:
  assumes "disciplined lib s" and "newBytes s = 0"
    and "rx_packet_received pkt h'" and "length pkt \<le> unat VCOM_RX_EPSIZE"
  shows "\<exists>s1 s2. vcomDataRxCb (s\<lparr>hw := h'\<rparr>) = Inr s1
           \<and> newBytes s1 = of_nat (length pkt)
           \<and> rx_calls lens s1 = Inr (rx_expected pkt lens, s2)
           \<and> concat (map fst (rx_expected pkt lens)) = take (sum_list (map unat lens)) pkt
           \<and> newBytes s2 = of_nat (length pkt - sum_list (map unat lens))
           \<and> (length pkt \<le> sum_list (map unat lens) \<longrightarrow>
                concat (map fst (rx_expected pkt lens)) = pkt \<and> newBytes s2 = 0)"
proof -
  from disciplined_inv [OF assms(1)] assms(2) have "rx_offset (s\<lparr>hw := h'\<rparr>) = 0"
    by simp
  from vcomDataRxCb_holds [OF this _ assms(4)] assms(3) obtain s1
    where cb: "vcomDataRxCb (s\<lparr>hw := h'\<rparr>) = Inr s1" and h1: "rx_holds pkt s1"
    by auto
  from rx_holds_calls [OF h1, of lens] obtain s2
    where calls: "rx_calls lens s1 = Inr (rx_expected pkt lens, s2)"
      and h2: "rx_holds (drop (sum_list (map unat lens)) pkt) s2"
    by blast
  have "newBytes s1 = of_nat (length pkt)"
    using h1 by (simp add: rx_holds_def)
  moreover have "newBytes s2 = of_nat (length pkt - sum_list (map unat lens))"
    using h2 by (simp add: rx_holds_def)
  ultimately show ?thesis
    using cb calls by (simp add: rx_expected_concat)
qed

section \<open>A delivered packet, evaluated\<close>

lemma rx_count_hw_pkt: "usb_get_ep_rx_count VCOM_RX_ENDP hw_pkt = 2"
  by (simp add: hw_pkt_def usb_get_ep_rx_count_def usb_ep_rx_count_ptr_def
        usb_btable_ptr_def hw0_def pma_byte_ptr_def usb_pma_ptr_def VCOM_RX_ENDP_def
        VCOM_RX_ADDR_def USB_PMA_BASE_def)

lemma bytes_hw_pkt: "usb_copy_from_pma 2 VCOM_RX_ADDR hw_pkt = [0x68, 0x69]"
proof -
  have "[0..<2] = [0, Suc 0]" by (simp add: upt_rec)
  moreover have "pma hw_pkt (pma_byte_ptr VCOM_RX_ADDR 0) = 0x6968"
    by (simp add: hw_pkt_def)
  moreover have "pma_byte_ptr VCOM_RX_ADDR (Suc 0) = pma_byte_ptr VCOM_RX_ADDR 0"
    by (simp add: pma_byte_ptr_def)
  moreover have "(ucast (0x6968 :: uint32_t) :: uint8_t) = 0x68"
    "(ucast (drop_bit 8 (0x6968 :: uint32_t)) :: uint8_t) = 0x69"
    by (simp_all add: drop_bit_eq_div)
  ultimately show ?thesis
    by (simp add: usb_copy_from_pma_def pma_get_byte_def lane_get_def)
qed

lemma received_hw_pkt: "rx_packet_received [0x68, 0x69] hw_pkt"
  by (simp add: rx_packet_received_def rx_count_hw_pkt bytes_hw_pkt)

lemma callback_s_got: "vcomDataRxCb ((boot_state hw0 stack0)\<lparr>hw := hw_pkt\<rparr>) = Inr s_got"
proof -
  have e: "(boot_state hw0 stack0)\<lparr>hw := hw_pkt\<rparr> = boot_state hw_pkt stack0"
    by (simp add: boot_state_def)
  have "\<not> unat VCOM_RX_BUFLEN < unat (usb_get_ep_rx_count VCOM_RX_ENDP (hw (boot_state hw_pkt stack0)))"
    by (simp add: rx_count_hw_pkt rx_buflen)
  then obtain s' where "vcomDataRxCb (boot_state hw_pkt stack0) = Inr s'"
    by (simp add: vcomDataRxCb_eq Let_def)
  then show ?thesis
    by (simp add: e s_got_def)
qed

lemma s_got_fields: "newBytes s_got = 2" "rx_offset s_got = 0"
  using vcomDataRxCb_fields (1,2) [OF callback_s_got]
  by (simp_all add: rx_count_hw_pkt)

lemma s_got_calls:
  "\<exists>buf s'. usb_cdcacm_rx 1 s_got = Inr (buf, 1, s')"
  "\<exists>buf s'. usb_cdcacm_rx 2 s_got = Inr (buf, 2, s')"
  "\<exists>buf s'. usb_cdcacm_rx 5 s_got = Inr (buf, 2, s')"
  using usb_cdcacm_rx_ok [of s_got 1] usb_cdcacm_rx_ok [of s_got 2] usb_cdcacm_rx_ok [of s_got 5]
  by (simp_all add: s_got_fields rx_buflen)


theorem rx_cursor_in_bounds_witness:
  "disciplined lib0 s_got
   \<and> unat (rx_offset s_got) + unat (newBytes s_got) \<le> unat VCOM_RX_EPSIZE
   \<and> (\<exists>buf n s'. usb_cdcacm_rx 5 s_got = Inr (buf, n, s') \<and> n = 2
         \<and> rx_index s_got 1 = 1 \<and> rx_index s_got 1 < unat VCOM_RX_BUFLEN)"
proof -
  have le: "usb_get_ep_rx_count VCOM_RX_ENDP hw_pkt \<le> ucast VCOM_RX_EPSIZE"
    by (simp add: rx_count_hw_pkt VCOM_RX_EPSIZE_def)
  have d: "disciplined lib0 s_got"
    by (rule d_complete [OF d_boot _ le callback_s_got]) simp
  note t = rx_cursor_in_bounds [OF d]
  from t obtain buf n s' where call: "usb_cdcacm_rx 5 s_got = Inr (buf, n, s')"
    and idx: "\<forall>i < unat n. rx_index s_got i = i + unat (rx_offset s_got)
                  \<and> rx_index s_got i < unat (rx_offset s_got) + unat (newBytes s_got)
                  \<and> rx_index s_got i < unat VCOM_RX_BUFLEN"
    by blast
  from s_got_calls(3) call have n: "n = 2" by auto
  from idx n have "rx_index s_got 1 = 1 \<and> rx_index s_got 1 < unat VCOM_RX_BUFLEN"
    by (simp add: s_got_fields rx_buflen)
  with d t call n show ?thesis by blast
qed

lemma rx_round_trip_example:
  "disciplined lib0 (boot_state hw0 stack0)
   \<and> newBytes (boot_state hw0 stack0) = 0
   \<and> rx_packet_received [0x68, 0x69] hw_pkt
   \<and> length [0x68, 0x69 :: uint8_t] \<le> unat VCOM_RX_EPSIZE
   \<and> (\<exists>s1 s2. vcomDataRxCb ((boot_state hw0 stack0)\<lparr>hw := hw_pkt\<rparr>) = Inr s1
         \<and> newBytes s1 = 2
         \<and> rx_calls [1, 5] s1 = Inr ([([0x68], 1, 1), ([0x69], 1, 0)], s2)
         \<and> newBytes s2 = 0)"
proof -
  have a: "disciplined lib0 (boot_state hw0 stack0)" by (rule d_boot)
  have b: "newBytes (boot_state hw0 stack0) = 0" by simp
  have c: "length [0x68, 0x69 :: uint8_t] \<le> unat VCOM_RX_EPSIZE" by (simp add: rx_buflen)
  have e: "rx_expected [0x68, 0x69] [1, 5] = [([0x68], 1, 1), ([0x69], 1, 0)]"
    by (simp add: Let_def)
  from rx_round_trip [OF a b received_hw_pkt c, of "[1, 5]"] obtain s1 s2
    where "vcomDataRxCb ((boot_state hw0 stack0)\<lparr>hw := hw_pkt\<rparr>) = Inr s1"
      and "newBytes s1 = 2"
      and "rx_calls [1, 5] s1 = Inr ([([0x68], 1, 1), ([0x69], 1, 0)], s2)"
      and "newBytes s2 = 0"
    unfolding e by auto
  with a b c received_hw_pkt show ?thesis by blast
qed

section \<open>A bus reset in the middle of a drain\<close>

lemma BTABLE_setters [simp]:
  "BTABLE (ep_store ep w h) = BTABLE h"
  "BTABLE (usb_set_ep_type ep t h) = BTABLE h"
  "BTABLE (usb_set_ep_kind ep t h) = BTABLE h"
  "BTABLE (usb_clear_status_out ep h) = BTABLE h"
  "BTABLE (usb_set_ep_rx_stat ep t h) = BTABLE h"
  "BTABLE (usb_set_ep_tx_stat ep t h) = BTABLE h"
  "BTABLE (usb_set_ep_rx_addr ep a h) = BTABLE h"
  "BTABLE (usb_set_ep_tx_addr ep a h) = BTABLE h"
  "BTABLE (usb_set_ep_tx_count ep c h) = BTABLE h"
  "BTABLE (usb_set_ep_rx_count ep c h) = BTABLE h"
  by (simp_all add: ep_store_def usb_set_ep_type_def usb_set_ep_kind_def
        usb_clear_status_out_def usb_set_ep_rx_stat_def usb_set_ep_tx_stat_def
        usb_set_ep_rx_addr_def usb_set_ep_tx_addr_def usb_set_ep_tx_count_def
        usb_set_ep_rx_count_def Let_def)

lemma rx_count_cfg_setters [simp]:
  "rx_count_cfg (ep_store ep w h) = rx_count_cfg h"
  "rx_count_cfg (usb_set_ep_type ep t h) = rx_count_cfg h"
  "rx_count_cfg (usb_set_ep_kind ep t h) = rx_count_cfg h"
  "rx_count_cfg (usb_clear_status_out ep h) = rx_count_cfg h"
  "rx_count_cfg (usb_set_ep_tx_stat ep t h) = rx_count_cfg h"
  "rx_count_cfg (usb_set_ep_rx_addr ep a h) = rx_count_cfg h"
  "rx_count_cfg (usb_set_ep_tx_addr ep a h) = rx_count_cfg h"
  "rx_count_cfg (usb_set_ep_tx_count ep c h) = rx_count_cfg h"
  "rx_count_cfg (usb_set_ep_rx_count ep c h) = (rx_count_cfg h)(ep := c)"
  by (simp_all add: ep_store_def usb_set_ep_type_def usb_set_ep_kind_def
        usb_clear_status_out_def usb_set_ep_tx_stat_def
        usb_set_ep_rx_addr_def usb_set_ep_tx_addr_def usb_set_ep_tx_count_def
        usb_set_ep_rx_count_def Let_def)

lemma EP_table_setters [simp]:
  "EP (usb_set_ep_rx_addr ep a h) = EP h"
  "EP (usb_set_ep_tx_addr ep a h) = EP h"
  "EP (usb_set_ep_tx_count ep c h) = EP h"
  "EP (usb_set_ep_rx_count ep c h) = EP h"
  by (simp_all add: usb_set_ep_rx_addr_def usb_set_ep_tx_addr_def usb_set_ep_tx_count_def
        usb_set_ep_rx_count_def Let_def)

lemma EP_register_setters_other:
  assumes "ep' \<noteq> ep"
  shows "EP (usb_set_ep_type ep t h) ep' = EP h ep'"
    and "EP (usb_set_ep_kind ep t h) ep' = EP h ep'"
    and "EP (usb_clear_status_out ep h) ep' = EP h ep'"
    and "EP (usb_set_ep_rx_stat ep t h) ep' = EP h ep'"
    and "EP (usb_set_ep_tx_stat ep t h) ep' = EP h ep'"
  using assms
  by (simp_all add: ep_store_def usb_set_ep_type_def usb_set_ep_kind_def
        usb_clear_status_out_def usb_set_ep_rx_stat_def usb_set_ep_tx_stat_def Let_def)

lemma usbReset_buffer [simp]: "vcomBufferRx (usbReset lib s) = vcomBufferRx s"
  by (simp add: usbReset_def Let_def)

lemma usbReset_lib0_hw:
  "BTABLE (hw (usbReset lib0 s)) = BTABLE_ADDRESS"
  "rx_count_cfg (hw (usbReset lib0 s)) VCOM_RX_ENDP = 64"
  "EP (hw (usbReset lib0 s)) VCOM_RX_ENDP AND USB_EP_STAT_RX = USB_EP_STAT_RX_VALID"
proof -
  have ne: "VCOM_RX_ENDP \<noteq> VCOM_TX_ENDP"
    by (simp add: VCOM_RX_ENDP_def VCOM_TX_ENDP_def)
  show "BTABLE (hw (usbReset lib0 s)) = BTABLE_ADDRESS"
    by (simp add: usbReset_def Let_def lib0_def)
  show "rx_count_cfg (hw (usbReset lib0 s)) VCOM_RX_ENDP = 64"
    by (simp add: usbReset_def Let_def lib0_def)
  show "EP (hw (usbReset lib0 s)) VCOM_RX_ENDP AND USB_EP_STAT_RX = USB_EP_STAT_RX_VALID"
    by (simp add: usbReset_def Let_def lib0_def EP_register_setters_other [OF ne]
          rx_stat_after_valid)
qed

lemma rx_count_ptr_not_rx_buffer:
  assumes "BTABLE h = BTABLE_ADDRESS" and "j < 2 ^ 16"
  shows "usb_ep_rx_count_ptr VCOM_RX_ENDP h \<noteq> pma_byte_ptr VCOM_RX_ADDR j"
proof -
  have l: "usb_ep_rx_count_ptr VCOM_RX_ENDP h = USB_PMA_BASE + of_nat 60"
    using assms(1)
    by (simp add: usb_ep_rx_count_ptr_def usb_btable_ptr_def usb_pma_ptr_def VCOM_RX_ENDP_def
          BTABLE_ADDRESS_def)
  have r: "pma_byte_ptr VCOM_RX_ADDR j = USB_PMA_BASE + of_nat (544 + 4 * (j div 2))"
    by (simp add: pma_byte_ptr_of_nat VCOM_RX_ADDR_def)
  have "544 + 4 * (j div 2) < 2 ^ 32"
    using assms(2) by auto
  then have "(of_nat (544 + 4 * (j div 2)) :: uint32_t) \<noteq> of_nat 60"
    by (subst of_nat_32_inj) auto
  then show ?thesis
    unfolding l r by simp
qed

lemma count_mask:
  assumes "n \<le> 64"
  shows "(ucast (of_nat n :: uint32_t) :: uint16_t) AND 0x3FF = of_nat n"
proof -
  have "(of_nat n :: uint16_t) < 2 ^ 10"
    using assms by (simp add: word_less_nat_alt unat_of_nat)
  then have "(of_nat n :: uint16_t) AND mask 10 = of_nat n"
    by (rule less_mask_eq)
  moreover have "(0x3FF :: uint16_t) = mask 10"
    by (simp add: mask_eq_exp_minus_1)
  moreover have "(ucast (of_nat n :: uint32_t) :: uint16_t) = of_nat n"
  proof -
    have "take_bit 16 n = n"
      using assms by (intro take_bit_nat_eq_self) simp
    then have "unat (ucast (of_nat n :: uint32_t) :: uint16_t) = unat (of_nat n :: uint16_t)"
      using assms by (simp add: unsigned_ucast_eq unat_of_nat)
    then show ?thesis by (rule word_unat_eq_iff [THEN iffD2])
  qed
  ultimately show ?thesis by simp
qed

lemma peripheral_receive_frame [simp]:
  "EP (peripheral_receive pkt h) = EP h"
  "BTABLE (peripheral_receive pkt h) = BTABLE h"
  "rx_count_cfg (peripheral_receive pkt h) = rx_count_cfg h"
  by (simp_all add: peripheral_receive_def)

lemma peripheral_receive_received:
  assumes b: "BTABLE h = BTABLE_ADDRESS" and len: "length pkt \<le> 64"
  shows "rx_packet_received pkt (peripheral_receive pkt h)"
proof -
  define h2 where
    "h2 = h\<lparr>pma := (pma h)(usb_ep_rx_count_ptr VCOM_RX_ENDP h := of_nat (length pkt))\<rparr>"
  have un: "unat (of_nat (length pkt) :: uint16_t) = length pkt"
    using len by (simp add: unat_of_nat)
  have ptr: "usb_ep_rx_count_ptr VCOM_RX_ENDP (peripheral_receive pkt h)
             = usb_ep_rx_count_ptr VCOM_RX_ENDP h"
    by (simp add: usb_ep_rx_count_ptr_def usb_btable_ptr_def)
  have "\<forall>i < unat (of_nat (length pkt) :: uint16_t).
          usb_ep_rx_count_ptr VCOM_RX_ENDP h \<noteq> pma_byte_ptr VCOM_RX_ADDR i"
    using len by (auto simp: un intro!: rx_count_ptr_not_rx_buffer [OF b])
  then have "pma (peripheral_receive pkt h) (usb_ep_rx_count_ptr VCOM_RX_ENDP h)
             = pma h2 (usb_ep_rx_count_ptr VCOM_RX_ENDP h)"
    unfolding peripheral_receive_def h2_def [symmetric] by (rule pma_copy_to_pma_other)
  then have cnt: "usb_get_ep_rx_count VCOM_RX_ENDP (peripheral_receive pkt h)
                  = of_nat (length pkt)"
    by (simp add: usb_get_ep_rx_count_def ptr h2_def count_mask [OF len])
  have "usb_copy_from_pma (of_nat (length pkt)) VCOM_RX_ADDR (peripheral_receive pkt h)
        = map (\<lambda>i. pkt ! i) [0..<unat (of_nat (length pkt) :: uint16_t)]"
    unfolding peripheral_receive_def by (rule copy_round_trip)
  also have "\<dots> = pkt"
    by (simp add: un map_nth)
  finally show ?thesis
    using cnt by (simp add: rx_packet_received_def)
qed

lemma after_rx_complete_eq:
  "vcomDataRxCb (s\<lparr>hw := peripheral_receive pkt (hw s)\<rparr>) = Inr s' \<Longrightarrow>
   after_rx_complete pkt s = s'"
  by (simp add: after_rx_complete_def)

lemma after_rx_eq: "usb_cdcacm_rx len s = Inr (buf, n, s') \<Longrightarrow> after_rx len s = s'"
  by (simp add: after_rx_def)

lemma s_reset1_facts:
  "newBytes s_reset1 = 0" "rx_offset s_reset1 = 0"
  "BTABLE (hw s_reset1) = BTABLE_ADDRESS"
  "EP (hw s_reset1) VCOM_RX_ENDP AND USB_EP_STAT_RX = USB_EP_STAT_RX_VALID"
  by (simp_all add: s_reset1_def usbReset_lib0_hw)

lemma s_first_facts:
  "vcomDataRxCb (s_reset1\<lparr>hw := peripheral_receive pkt8 (hw s_reset1)\<rparr>) = Inr s_first"
  "rx_holds pkt8 s_first"
  "rx_offset s_first = 0"
  "EP (hw s_first) VCOM_RX_ENDP AND USB_EP_STAT_RX = USB_EP_STAT_RX_NAK"
proof -
  let ?s = "s_reset1\<lparr>hw := peripheral_receive pkt8 (hw s_reset1)\<rparr>"
  have l: "length pkt8 \<le> 64" by (simp add: pkt8_def)
  have r: "rx_packet_received pkt8 (hw ?s)"
    using peripheral_receive_received [OF s_reset1_facts(3) l] by simp
  have o: "rx_offset ?s = 0" by (simp add: s_reset1_facts)
  have l': "length pkt8 \<le> unat VCOM_RX_EPSIZE" using l by (simp add: rx_buflen)
  from vcomDataRxCb_holds [OF o r l'] obtain s1
    where cb: "vcomDataRxCb ?s = Inr s1" and h: "rx_holds pkt8 s1" by blast
  have e: "s_first = s1"
    unfolding s_first_def by (rule after_rx_complete_eq [OF cb])
  show "vcomDataRxCb ?s = Inr s_first" using cb e by simp
  show "rx_holds pkt8 s_first" using h e by simp
  show "rx_offset s_first = 0" using vcomDataRxCb_fields(2) [OF cb] o e by simp
  show "EP (hw s_first) VCOM_RX_ENDP AND USB_EP_STAT_RX = USB_EP_STAT_RX_NAK"
    using vcomDataRxCb_nak [OF cb] e by simp
qed

lemma buffer_s_first: "i < 8 \<Longrightarrow> vcomBufferRx s_first i = pkt8 ! i"
  using s_first_facts(2,3) by (simp add: rx_holds_def pkt8_def)

lemma s_part_facts:
  "usb_cdcacm_rx 3 s_first = Inr ([0x30, 0x31, 0x32], 3, s_part)"
  "newBytes s_part = 5" "rx_offset s_part = 3"
  "vcomBufferRx s_part = vcomBufferRx s_first"
  "EP (hw s_part) VCOM_RX_ENDP AND USB_EP_STAT_RX = USB_EP_STAT_RX_NAK"
proof -
  from rx_holds_call [OF s_first_facts(2), of 3] obtain s'
    where call: "usb_cdcacm_rx 3 s_first = Inr ([0x30, 0x31, 0x32], 3, s')"
      and nb: "newBytes s' = 5"
    by (auto simp: pkt8_def)
  have e: "s_part = s'"
    unfolding s_part_def by (rule after_rx_eq [OF call])
  note c = usb_cdcacm_rx_cases [OF call]
  have nz: "newBytes s' \<noteq> 0" by (simp add: nb)
  show "usb_cdcacm_rx 3 s_first = Inr ([0x30, 0x31, 0x32], 3, s_part)" using call e by simp
  show "newBytes s_part = 5" using nb e by simp
  show "rx_offset s_part = 3" using c(5) [OF nz] e by (simp add: s_first_facts)
  show "vcomBufferRx s_part = vcomBufferRx s_first" using c(8) e by simp
  show "EP (hw s_part) VCOM_RX_ENDP AND USB_EP_STAT_RX = USB_EP_STAT_RX_NAK"
    using c(5) [OF nz] e by (simp add: s_first_facts)
qed

lemma s_reset2_facts:
  "newBytes s_reset2 = 5" "rx_offset s_reset2 = 3"
  "vcomBufferRx s_reset2 = vcomBufferRx s_first"
  "BTABLE (hw s_reset2) = BTABLE_ADDRESS"
  "rx_count_cfg (hw s_reset2) VCOM_RX_ENDP = 64"
  "EP (hw s_reset2) VCOM_RX_ENDP AND USB_EP_STAT_RX = USB_EP_STAT_RX_VALID"
  by (simp_all add: s_reset2_def usbReset_lib0_hw s_part_facts)

lemma received_second:
  "rx_packet_received [0x68, 0x69] (peripheral_receive [0x68, 0x69] (hw s_reset2))"
  by (rule peripheral_receive_received [OF s_reset2_facts(4)]) simp

lemma s_second_facts:
  "vcomDataRxCb (s_reset2\<lparr>hw := peripheral_receive [0x68, 0x69] (hw s_reset2)\<rparr>)
   = Inr s_second"
  "newBytes s_second = 2" "rx_offset s_second = 3"
  "vcomBufferRx s_second 3 = 0x33" "vcomBufferRx s_second 4 = 0x34"
  "vcomBufferRx s_second 0 = 0x68" "vcomBufferRx s_second 1 = 0x69"
proof -
  let ?s = "s_reset2\<lparr>hw := peripheral_receive [0x68, 0x69] (hw s_reset2)\<rparr>"
  have k: "usb_get_ep_rx_count VCOM_RX_ENDP (hw ?s) = 2"
    and d: "usb_copy_from_pma 2 VCOM_RX_ADDR (hw ?s) = [0x68, 0x69]"
    using received_second by (simp_all add: rx_packet_received_def)
  define s2 where "s2 = ?s\<lparr>newBytes := 2,
      hw := usb_set_ep_rx_stat VCOM_RX_ENDP USB_EP_STAT_RX_NAK (hw ?s),
      vcomBufferRx := (\<lambda>i. if i < 2 then [0x68, 0x69] ! i else vcomBufferRx ?s i)\<rparr>"
  have cb: "vcomDataRxCb ?s = Inr s2"
    unfolding vcomDataRxCb_eq Let_def k d s2_def by (simp add: rx_buflen)
  have e: "s_second = s2"
    unfolding s_second_def by (rule after_rx_complete_eq [OF cb])
  show "vcomDataRxCb ?s = Inr s_second" using cb e by simp
  show "newBytes s_second = 2" by (simp add: e s2_def)
  show "rx_offset s_second = 3" by (simp add: e s2_def s_reset2_facts)
  show "vcomBufferRx s_second 3 = 0x33"
    by (simp add: e s2_def s_reset2_facts buffer_s_first pkt8_def)
  show "vcomBufferRx s_second 4 = 0x34"
    by (simp add: e s2_def s_reset2_facts buffer_s_first pkt8_def)
  show "vcomBufferRx s_second 0 = 0x68" by (simp add: e s2_def)
  show "vcomBufferRx s_second 1 = 0x69" by (simp add: e s2_def)
qed

lemma s_stale_facts:
  "usb_cdcacm_rx 2 s_second = Inr ([0x33, 0x34], 2, s_stale)"
  "newBytes s_stale = 0"
proof -
  have inv: "unat (rx_offset s_second) + unat (newBytes s_second) \<le> unat VCOM_RX_BUFLEN"
    by (simp add: s_second_facts rx_buflen)
  from usb_cdcacm_rx_ok [OF inv, of 2] obtain buf s'
    where call: "usb_cdcacm_rx 2 s_second = Inr (buf, 2, s')"
    by (auto simp: s_second_facts)
  note c = usb_cdcacm_rx_cases [OF call]
  have i0: "rx_index s_second 0 = 3" and i1: "rx_index s_second (Suc 0) = 4"
    by (simp_all add: rx_index_def s_second_facts)
  have "[0..<2] = [0, Suc 0]" by (simp add: upt_rec)
  then have buf: "buf = [0x33, 0x34]"
    using c(7) by (simp add: i0 i1 s_second_facts)
  have e: "s_stale = s'"
    unfolding s_stale_def by (rule after_rx_eq [OF call])
  show "usb_cdcacm_rx 2 s_second = Inr ([0x33, 0x34], 2, s_stale)"
    using call buf e by simp
  show "newBytes s_stale = 0"
    using c(2) e by (simp add: s_second_facts)
qed

text \<open>
  Claim C5: the bytes that one RX completion delivers come out of \<open>usb_cdcacm_rx\<close> in
  their order, byte for byte. The code breaks it after a bus reset in the middle of a
  drain. \<open>usbReset\<close> sets the RX endpoint VALID again but clears neither \<open>newBytes\<close> nor
  \<open>rx_offset\<close>: eight bytes arrive, three are read, the bus is reset, the packet
  \<open>[0x68, 0x69]\<close> arrives and is stored from index 0, and the next call reads from the
  old cursor 3 and hands out the stale bytes \<open>[0x33, 0x34]\<close>.
\<close>

theorem rx_round_trip_fails_after_reset:
  "EP (hw s_reset1) VCOM_RX_ENDP AND USB_EP_STAT_RX = USB_EP_STAT_RX_VALID
   \<and> vcomDataRxCb (s_reset1\<lparr>hw := peripheral_receive pkt8 (hw s_reset1)\<rparr>) = Inr s_first
   \<and> usb_cdcacm_rx 3 s_first = Inr ([0x30, 0x31, 0x32], 3, s_part)
   \<and> newBytes s_part = 5 \<and> rx_offset s_part = 3
   \<and> EP (hw s_part) VCOM_RX_ENDP AND USB_EP_STAT_RX = USB_EP_STAT_RX_NAK
   \<and> s_reset2 = usbReset lib0 s_part
   \<and> newBytes s_reset2 = 5 \<and> rx_offset s_reset2 = 3
   \<and> EP (hw s_reset2) VCOM_RX_ENDP AND USB_EP_STAT_RX = USB_EP_STAT_RX_VALID
   \<and> rx_count_cfg (hw s_reset2) VCOM_RX_ENDP = 64
   \<and> rx_packet_received [0x68, 0x69] (peripheral_receive [0x68, 0x69] (hw s_reset2))
   \<and> vcomDataRxCb (s_reset2\<lparr>hw := peripheral_receive [0x68, 0x69] (hw s_reset2)\<rparr>)
       = Inr s_second
   \<and> newBytes s_second = 2
   \<and> usb_cdcacm_rx 2 s_second = Inr ([0x33, 0x34], 2, s_stale)
   \<and> rx_calls [2] s_second = Inr ([([0x33, 0x34], 2, 0)], s_stale)
   \<and> rx_expected [0x68, 0x69] [2] = [([0x68, 0x69], 2, 0)]"
proof -
  have "s_reset2 = usbReset lib0 s_part" by (rule s_reset2_def)
  moreover have "rx_calls [2] s_second = Inr ([([0x33, 0x34], 2, 0)], s_stale)"
    by (simp add: s_stale_facts)
  moreover have "rx_expected [0x68, 0x69] [2] = [([0x68, 0x69], 2, 0)]"
    by (simp add: Let_def)
  ultimately show ?thesis
    by (intro conjI s_reset1_facts s_first_facts s_part_facts s_reset2_facts received_second
        s_second_facts s_stale_facts)
qed

end
